theory Spec2Isabelle
  imports Main "HOL-Library.Monad_Syntax" "HOL-Library.AList"
begin

section \<open>Product rows and their JSON text\<close>

text \<open>
  A row of the table \<^verbatim>\<open>products\<close> (server.js, lines 75-79): an integer key, a text that is
  never NULL and a text that may be NULL. Texts are sequences of code units below 256.
\<close>

record product =
  product_id :: nat
  product_name :: string
  product_description :: "string option"

definition dquote :: char where
  "dquote = CHR 0x22"

definition bslash :: char where
  "bslash = CHR 0x5C"

definition hexdig :: "nat \<Rightarrow> char" where
  "hexdig n = ''0123456789abcdef'' ! n"

definition hexval :: "char \<Rightarrow> nat option" where
  "hexval c = (let n = (of_char c :: nat) in
     if 48 \<le> n \<and> n \<le> 57 then Some (n - 48)
     else if 97 \<le> n \<and> n \<le> 102 then Some (n - 87)
     else if 65 \<le> n \<and> n \<le> 70 then Some (n - 55)
     else None)"

text \<open>
  \<^verbatim>\<open>JSON.stringify\<close> on a string (QuoteJSONString): the double quote, the backslash and
  the code units below 0x20 are escaped, every other code unit is copied.
\<close>

definition escape_char :: "char \<Rightarrow> string" where
  "escape_char c =
     (if c = dquote then [bslash, dquote]
      else if c = bslash then [bslash, bslash]
      else if c = CHR 0x08 then [bslash, CHR ''b'']
      else if c = CHR 0x0C then [bslash, CHR ''f'']
      else if c = CHR 0x0A then [bslash, CHR ''n'']
      else if c = CHR 0x0D then [bslash, CHR ''r'']
      else if c = CHR 0x09 then [bslash, CHR ''t'']
      else if (of_char c :: nat) < 32
        then [bslash, CHR ''u'', CHR ''0'', CHR ''0'',
              hexdig ((of_char c :: nat) div 16), hexdig ((of_char c :: nat) mod 16)]
      else [c])"

definition QuoteJSONString :: "string \<Rightarrow> string" where
  "QuoteJSONString s = dquote # concat (map escape_char s) @ [dquote]"

fun showNat :: "nat \<Rightarrow> string" where
  "showNat n =
     (if n < 10 then [char_of (48 + n)] else showNat (n div 10) @ [char_of (48 + n mod 10)])"

declare showNat.simps [simp del]

definition stringify_product :: "product \<Rightarrow> string" where
  \<open>stringify_product r =
     ''{"id":'' @ showNat (product_id r) @
     '',"name":'' @ QuoteJSONString (product_name r) @
     '',"description":'' @
       (case product_description r of None \<Rightarrow> ''null'' | Some d \<Rightarrow> QuoteJSONString d) @
     ''}''\<close>

fun join_comma :: "string list \<Rightarrow> string" where
  "join_comma [] = []"
| "join_comma [x] = x"
| "join_comma (x # y # ys) = x @ '','' @ join_comma (y # ys)"

text \<open>\<^verbatim>\<open>JSON.stringify(rows)\<close> for the rows that \<^verbatim>\<open>db.all\<close> hands to its callback.\<close>

definition JSON_stringify :: "product list \<Rightarrow> string" where
  "JSON_stringify rows = ''['' @ join_comma (map stringify_product rows) @ '']''"

text \<open>
  \<^verbatim>\<open>JSON.parse\<close>, for the texts of row sequences: \<open>None\<close> is the \<^verbatim>\<open>SyntaxError\<close> it throws.
  The members of a row are read in the order of the table's columns, numbers are keys
  (decimal numerals without sign, fraction or exponent), no white space is skipped, and an
  escape \<^verbatim>\<open>\uXXXX\<close> of a code unit above 0xFF is refused, since the texts of the model
  have none: on a JSON text of another shape the model answers \<open>None\<close> where the
  library would build a value.
\<close>

definition simple_escape :: "char \<Rightarrow> char option" where
  "simple_escape e =
     (if e = dquote then Some dquote
      else if e = bslash then Some bslash
      else if e = CHR ''/'' then Some (CHR ''/'')
      else if e = CHR ''b'' then Some (CHR 0x08)
      else if e = CHR ''f'' then Some (CHR 0x0C)
      else if e = CHR ''n'' then Some (CHR 0x0A)
      else if e = CHR ''r'' then Some (CHR 0x0D)
      else if e = CHR ''t'' then Some (CHR 0x09)
      else None)"

fun parse_chars :: "string \<Rightarrow> (string \<times> string) option" where
  "parse_chars [] = None"
| "parse_chars (c # cs) =
    (if c = dquote then Some ([], cs)
     else if c = bslash then
       (case cs of
          [] \<Rightarrow> None
        | e # es \<Rightarrow>
           if e = CHR ''u'' then
             (case es of
                h1 # h2 # h3 # h4 # rest \<Rightarrow>
                  (case (hexval h1, hexval h2, hexval h3, hexval h4) of
                     (Some a, Some b, Some c, Some d) \<Rightarrow>
                        (let n = ((a * 16 + b) * 16 + c) * 16 + d
                         in if n < 256
                            then map_option (apfst (Cons (char_of n))) (parse_chars rest)
                            else None)
                   | _ \<Rightarrow> None)
              | _ \<Rightarrow> None)
           else (case simple_escape e of
                   None \<Rightarrow> None
                 | Some x \<Rightarrow> map_option (apfst (Cons x)) (parse_chars es)))
     else if (of_char c :: nat) < 32 then None
     else map_option (apfst (Cons c)) (parse_chars cs))"

definition parse_string :: "string \<Rightarrow> (string \<times> string) option" where
  "parse_string s = (case s of [] \<Rightarrow> None | c # cs \<Rightarrow> if c = dquote then parse_chars cs else None)"

definition is_digit :: "char \<Rightarrow> bool" where
  "is_digit c \<longleftrightarrow> 48 \<le> (of_char c :: nat) \<and> (of_char c :: nat) \<le> 57"

definition digit_val :: "char \<Rightarrow> nat" where
  "digit_val c = (of_char c :: nat) - 48"

definition parse_nat :: "string \<Rightarrow> (nat \<times> string) option" where
  "parse_nat s =
     (let ds = takeWhile is_digit s
      in if ds = [] then None
         else if hd ds = CHR ''0'' \<and> 1 < length ds then None
         else Some (foldl (\<lambda>a c. 10 * a + digit_val c) 0 ds, dropWhile is_digit s))"

definition expect :: "string \<Rightarrow> string \<Rightarrow> string option" where
  "expect p s = (if take (length p) s = p then Some (drop (length p) s) else None)"

definition parse_description :: "string \<Rightarrow> (string option \<times> string) option" where
  "parse_description s =
     (case expect ''null'' s of
        Some rest \<Rightarrow> Some (None, rest)
      | None \<Rightarrow> map_option (apfst Some) (parse_string s))"

definition parse_product :: "string \<Rightarrow> (product \<times> string) option" where
  \<open>parse_product s = do {
     s1 \<leftarrow> expect ''{"id":'' s;
     (i, s2) \<leftarrow> parse_nat s1;
     s3 \<leftarrow> expect '',"name":'' s2;
     (n, s4) \<leftarrow> parse_string s3;
     s5 \<leftarrow> expect '',"description":'' s4;
     (d, s6) \<leftarrow> parse_description s5;
     s7 \<leftarrow> expect ''}'' s6;
     Some (\<lparr>product_id = i, product_name = n, product_description = d\<rparr>, s7)
   }\<close>

function parse_more :: "string \<Rightarrow> product list option" where
  "parse_more s =
     (case s of
        [] \<Rightarrow> None
      | c # cs \<Rightarrow>
          if c = CHR '']'' then (if cs = [] then Some [] else None)
          else if c = CHR '','' then
            (case parse_product cs of
               None \<Rightarrow> None
             | Some (r, s') \<Rightarrow>
                 if length s' < length cs then map_option (Cons r) (parse_more s') else None)
          else None)"
  by pat_completeness auto
termination
  by (relation "measure length") auto

declare parse_more.simps [simp del]

definition JSON_parse :: "string \<Rightarrow> product list option" where
  "JSON_parse s =
     (case s of
        [] \<Rightarrow> None
      | c # cs \<Rightarrow>
          if c \<noteq> CHR ''['' then None
          else if cs = '']'' then Some []
          else (case parse_product cs of
                  None \<Rightarrow> None
                | Some (r, s') \<Rightarrow> map_option (Cons r) (parse_more s')))"


section \<open>The collaborators of the server\<close>

subsection \<open>Values of a request body\<close>

text \<open>
  A field of \<^verbatim>\<open>req.body\<close>: absent, \<^verbatim>\<open>null\<close> or a string (the interface's fields are
  strings). \<open>truthy\<close> is the test of \<^verbatim>\<open>if (!name)\<close>.
\<close>

datatype jsval = Undefined | Null | Str string

fun truthy :: "jsval \<Rightarrow> bool" where
  "truthy Undefined = False"
| "truthy Null = False"
| "truthy (Str s) = (s \<noteq> [])"

fun str_of :: "jsval \<Rightarrow> string" where
  "str_of (Str s) = s"
| "str_of _ = []"

subsection \<open>Redis keys with an expiry\<close>

text \<open>
  Modelled from the spec: the Redis server behind \<^verbatim>\<open>redisClient\<close> (the Cache Layer) is not
  among the sources. Section 4.1: \<^verbatim>\<open>get\<close> gives the value or absent, \<^verbatim>\<open>set\<close> stores a
  value with a time to live, \<^verbatim>\<open>delete\<close> removes the key and raises nothing on an absent
  key; section 3: an entry has an expiry timestamp and is treated as absent once it has
  elapsed. A key maps to its value and the time, in seconds, at which it expires.
\<close>

type_synonym redis_db = "(string \<times> string \<times> nat) list"

definition redis_get :: "redis_db \<Rightarrow> string \<Rightarrow> nat \<Rightarrow> string option" where
  "redis_get r k now =
     (case map_of r k of
        None \<Rightarrow> None
      | Some (v, expires) \<Rightarrow> if expires < now then None else Some v)"

definition redis_setEx :: "redis_db \<Rightarrow> string \<Rightarrow> nat \<Rightarrow> string \<Rightarrow> nat \<Rightarrow> redis_db" where
  "redis_setEx r k seconds v now = AList.update k (v, now + seconds) r"

definition redis_del :: "redis_db \<Rightarrow> string \<Rightarrow> redis_db" where
  "redis_del r k = AList.delete k r"

subsection \<open>The SQLite table\<close>

text \<open>
  Modelled from the spec: the SQLite engine behind \<^verbatim>\<open>db\<close> (the Record Store) is not among
  the sources. Section 4.2: \<^verbatim>\<open>insert\<close> returns the assigned id, \<^verbatim>\<open>scanAll\<close> the
  sequence of entities. The id follows the declaration of the table at server.js, lines
  75-79: \<^verbatim>\<open>id INTEGER PRIMARY KEY AUTOINCREMENT\<close> takes one more than the largest id the
  table ever held, which the engine keeps in \<^verbatim>\<open>sqlite_sequence\<close>, and refuses the insert
  beyond the largest 64-bit key; \<^verbatim>\<open>name TEXT NOT NULL\<close> refuses a NULL name.
\<close>

record sqlite =
  products :: "product list"
  sqlite_sequence :: nat

definition db_all :: "sqlite \<Rightarrow> product list" where
  "db_all d = products d"

definition largest_rowid :: "sqlite \<Rightarrow> nat" where
  "largest_rowid d = max (sqlite_sequence d) (fold max (map product_id (products d)) 0)"

definition next_rowid :: "sqlite \<Rightarrow> nat" where
  "next_rowid d = Suc (largest_rowid d)"

definition db_run_insert :: "sqlite \<Rightarrow> string option \<Rightarrow> string option \<Rightarrow> (sqlite \<times> nat) option" where
  "db_run_insert d name description =
     (case name of
        None \<Rightarrow> None
      | Some n \<Rightarrow>
          (let lastID = next_rowid d
           in if 9223372036854775807 < lastID then None
              else Some (d\<lparr>products := products d @
                             [\<lparr>product_id = lastID, product_name = n,
                               product_description = description\<rparr>],
                           sqlite_sequence := lastID\<rparr>, lastID)))"

fun sql_param :: "jsval \<Rightarrow> string option" where
  "sql_param (Str s) = Some s"
| "sql_param _ = None"

subsection \<open>Socket.IO sessions and the two subscriptions\<close>

text \<open>
  The connected sockets, each with the events it has received, oldest first.
  \<^verbatim>\<open>io.emit\<close> hands an event to every connected socket.
\<close>

type_synonym sockets = "(nat \<times> (string \<times> string) list) list"

definition connection :: "nat \<Rightarrow> sockets \<Rightarrow> sockets" where
  "connection sid socks = socks @ [(sid, [])]"

definition disconnect :: "nat \<Rightarrow> sockets \<Rightarrow> sockets" where
  "disconnect sid socks = filter (\<lambda>(i, inbox). i \<noteq> sid) socks"

definition io_emit :: "string \<Rightarrow> string \<Rightarrow> sockets \<Rightarrow> sockets" where
  "io_emit ev message socks = map (\<lambda>(i, inbox). (i, inbox @ [(ev, message)])) socks"

text \<open>
  The listeners registered by \<^verbatim>\<open>redisSubscriber.subscribe\<close> (server.js, lines 91-101):
  the channel and the Socket.IO event its listener emits.
\<close>

definition subscriptions :: "(string \<times> string) list" where
  "subscriptions =
     [(''product_updates'', ''product_updated''), (''custom_channel'', ''custom_channel'')]"

text \<open>
  \<^verbatim>\<open>redisPublisher.publish\<close>, as seen by this server: Redis hands the message to the
  listener of the channel, if there is one, and drops it otherwise.
\<close>

definition redis_publish :: "string \<Rightarrow> string \<Rightarrow> sockets \<Rightarrow> sockets" where
  "redis_publish channel message socks =
     (case map_of subscriptions channel of
        None \<Rightarrow> socks
      | Some ev \<Rightarrow> io_emit ev message socks)"

section \<open>The endpoints\<close>

record state =
  redis :: redis_db
  db :: sqlite
  sockets :: sockets

text \<open>
  What the collaborators do during one request is not the server's choice: each call to
  Redis or SQLite that can reject or report an error does so when its flag is set.
\<close>

record faults =
  get_fails :: bool
  all_fails :: bool
  setEx_fails :: bool
  run_fails :: bool
  del_fails :: bool
  publish_fails :: bool

datatype body =
    Rows "product list"
  | Error string
  | Created string nat
  | Message string

text \<open>
  \<open>No_response\<close>: the handler's callback rejected after the \<^verbatim>\<open>try\<close> block had been
  left, so that nothing was written to \<^verbatim>\<open>res\<close>.
\<close>

datatype outcome = Responded nat body | No_response

datatype call =
    Redis_get string
  | Redis_setEx string nat string
  | Redis_del string
  | Redis_publish string string
  | Db_all
  | Db_run "string option" "string option"

record result =
  response :: outcome
  calls :: "call list"
  state_after :: state

definition cacheKey :: string where
  "cacheKey = ''all_products''"

text \<open>The query \<^verbatim>\<open>db.all\<close> and its callback (server.js, lines 123-133).\<close>

definition db_all_callback :: "faults \<Rightarrow> nat \<Rightarrow> state \<Rightarrow> result" where
  "db_all_callback f now s =
     (if all_fails f
      then \<lparr>response = Responded 500 (Error ''Failed to fetch products from database''),
            calls = [Db_all], state_after = s\<rparr>
      else (let rows = db_all (db s); text = JSON_stringify rows
            in if setEx_fails f
               then \<lparr>response = No_response,
                     calls = [Db_all, Redis_setEx cacheKey 3600 text], state_after = s\<rparr>
               else \<lparr>response = Responded 200 (Rows rows),
                     calls = [Db_all, Redis_setEx cacheKey 3600 text],
                     state_after = s\<lparr>redis := redis_setEx (redis s) cacheKey 3600 text now\<rparr>\<rparr>))"

text \<open>\<^verbatim>\<open>app.get('/products')\<close> (server.js, lines 111-139), at the time \<open>now\<close>.\<close>

definition get_products :: "faults \<Rightarrow> nat \<Rightarrow> state \<Rightarrow> result" where
  "get_products f now s =
     (if get_fails f
      then \<lparr>response = Responded 500 (Error ''Internal server error''),
            calls = [Redis_get cacheKey], state_after = s\<rparr>
      else (let cachedProducts = redis_get (redis s) cacheKey now
            in if cachedProducts \<noteq> None \<and> cachedProducts \<noteq> Some []
               then (case JSON_parse (the cachedProducts) of
                       Some v \<Rightarrow>
                         \<lparr>response = Responded 200 (Rows v),
                          calls = [Redis_get cacheKey], state_after = s\<rparr>
                     | None \<Rightarrow>
                         \<lparr>response = Responded 500 (Error ''Internal server error''),
                          calls = [Redis_get cacheKey], state_after = s\<rparr>)
               else (let r = db_all_callback f now s
                     in r\<lparr>calls := Redis_get cacheKey # calls r\<rparr>)))"

text \<open>
  The message of \<^verbatim>\<open>app.post('/product')\<close> (server.js, lines 170-173):
  \<^verbatim>\<open>JSON.stringify\<close> leaves out a member whose value is \<^verbatim>\<open>undefined\<close>.
\<close>

record product_event =
  event_type :: string
  payload_id :: nat
  payload_name :: jsval
  payload_description :: jsval

fun stringify_member :: "string \<Rightarrow> jsval \<Rightarrow> string list" where
  "stringify_member k Undefined = []"
| "stringify_member k Null = [QuoteJSONString k @ '':null'']"
| "stringify_member k (Str v) = [QuoteJSONString k @ '':'' @ QuoteJSONString v]"

definition stringify_event :: "product_event \<Rightarrow> string" where
  \<open>stringify_event e =
     ''{"type":'' @ QuoteJSONString (event_type e) @ '',"payload":{'' @
     join_comma ([''"id":'' @ showNat (payload_id e)] @
                 stringify_member ''name'' (payload_name e) @
                 stringify_member ''description'' (payload_description e)) @
     ''}}''\<close>

text \<open>
  The listener of the front end (App.js, lines 73-80) reads the message back with
  \<^verbatim>\<open>JSON.parse\<close> and takes its members \<^verbatim>\<open>type\<close> and \<^verbatim>\<open>payload\<close>. The parser below is
  \<^verbatim>\<open>JSON.parse\<close> on the text of an object whose members are strings, keys, \<^verbatim>\<open>null\<close> or
  objects of such values, written without white space; \<open>None\<close> is the \<^verbatim>\<open>SyntaxError\<close>, or
  a text of another shape.
\<close>

datatype scalar = SNull | SNum nat | SStr string

datatype member_value = Scalar scalar | Object "(string \<times> scalar) list"

definition parse_scalar :: "string \<Rightarrow> (scalar \<times> string) option" where
  "parse_scalar s =
     (case expect ''null'' s of
        Some rest \<Rightarrow> Some (SNull, rest)
      | None \<Rightarrow>
          (case s of
             [] \<Rightarrow> None
           | c # cs \<Rightarrow>
               if c = dquote then map_option (apfst SStr) (parse_chars cs)
               else map_option (apfst SNum) (parse_nat s)))"

function parse_scalar_members :: "string \<Rightarrow> ((string \<times> scalar) list \<times> string) option" where
  "parse_scalar_members s =
     (case parse_string s of
        None \<Rightarrow> None
      | Some (k, s1) \<Rightarrow>
          (case expect '':'' s1 of
             None \<Rightarrow> None
           | Some s2 \<Rightarrow>
               (case parse_scalar s2 of
                  None \<Rightarrow> None
                | Some (v, s3) \<Rightarrow>
                    (case s3 of
                       [] \<Rightarrow> None
                     | c # cs \<Rightarrow>
                         if c = CHR ''}'' then Some ([(k, v)], cs)
                         else if c = CHR '','' \<and> length cs < length s
                           then map_option (apfst (Cons (k, v))) (parse_scalar_members cs)
                         else None))))"
  by pat_completeness auto
termination
  by (relation "measure length") auto

declare parse_scalar_members.simps [simp del]

definition parse_flat_object :: "string \<Rightarrow> ((string \<times> scalar) list \<times> string) option" where
  "parse_flat_object s =
     (case s of
        [] \<Rightarrow> None
      | c # cs \<Rightarrow>
          if c \<noteq> CHR ''{'' then None
          else (case cs of
                  [] \<Rightarrow> None
                | c' # cs' \<Rightarrow>
                    if c' = CHR ''}'' then Some ([], cs') else parse_scalar_members cs))"

definition parse_member_value :: "string \<Rightarrow> (member_value \<times> string) option" where
  "parse_member_value s =
     (case s of
        [] \<Rightarrow> None
      | c # cs \<Rightarrow>
          if c = CHR ''{'' then map_option (apfst Object) (parse_flat_object s)
          else map_option (apfst Scalar) (parse_scalar s))"

function parse_members :: "string \<Rightarrow> ((string \<times> member_value) list \<times> string) option" where
  "parse_members s =
     (case parse_string s of
        None \<Rightarrow> None
      | Some (k, s1) \<Rightarrow>
          (case expect '':'' s1 of
             None \<Rightarrow> None
           | Some s2 \<Rightarrow>
               (case parse_member_value s2 of
                  None \<Rightarrow> None
                | Some (v, s3) \<Rightarrow>
                    (case s3 of
                       [] \<Rightarrow> None
                     | c # cs \<Rightarrow>
                         if c = CHR ''}'' then Some ([(k, v)], cs)
                         else if c = CHR '','' \<and> length cs < length s
                           then map_option (apfst (Cons (k, v))) (parse_members cs)
                         else None))))"
  by pat_completeness auto
termination
  by (relation "measure length") auto

declare parse_members.simps [simp del]

definition JSON_parse_object :: "string \<Rightarrow> (string \<times> member_value) list option" where
  "JSON_parse_object s =
     (case s of
        [] \<Rightarrow> None
      | c # cs \<Rightarrow>
          if c \<noteq> CHR ''{'' then None
          else if cs = ''}'' then Some []
          else (case parse_members cs of
                  Some (ms, []) \<Rightarrow> Some ms
                | _ \<Rightarrow> None))"

text \<open>
  \<^verbatim>\<open>JSON.parse(message).k\<close>, the read of a member: \<open>None\<close> when the object has no member
  \<open>k\<close> (or the text does not parse). Of two members with one name the later one counts.
\<close>

definition property :: "string \<Rightarrow> string \<Rightarrow> member_value option" where
  "property k text =
     (case JSON_parse_object text of
        None \<Rightarrow> None
      | Some ms \<Rightarrow> map_of (rev ms) k)"

record product_body =
  body_name :: jsval
  body_description :: jsval

text \<open>\<^verbatim>\<open>app.post('/product')\<close> (server.js, lines 146-186).\<close>

definition post_product :: "faults \<Rightarrow> product_body \<Rightarrow> state \<Rightarrow> result" where
  "post_product f b s =
     (let name = body_name b; description = body_description b;
          ins = Db_run (sql_param name) (sql_param description)
      in if \<not> truthy name
         then \<lparr>response = Responded 400 (Error ''Product name is required''),
               calls = [], state_after = s\<rparr>
         else (case (if run_fails f then None
                     else db_run_insert (db s) (sql_param name) (sql_param description)) of
                 None \<Rightarrow>
                   \<lparr>response = Responded 500 (Error ''Failed to add product to database''),
                    calls = [ins], state_after = s\<rparr>
               | Some (d, newProductId) \<Rightarrow>
                   (let s1 = s\<lparr>db := d\<rparr>
                    in if del_fails f
                       then \<lparr>response = No_response,
                             calls = [ins, Redis_del cacheKey], state_after = s1\<rparr>
                       else (let s2 = s1\<lparr>redis := redis_del (redis s1) cacheKey\<rparr>;
                                 message = stringify_event
                                   \<lparr>event_type = ''NEW_PRODUCT'', payload_id = newProductId,
                                    payload_name = name, payload_description = description\<rparr>;
                                 pub = Redis_publish ''product_updates'' message
                             in if publish_fails f
                                then \<lparr>response = No_response,
                                      calls = [ins, Redis_del cacheKey, pub],
                                      state_after = s2\<rparr>
                                else \<lparr>response = Responded 201
                                        (Created ''Product added successfully and cache invalidated''
                                           newProductId),
                                      calls = [ins, Redis_del cacheKey, pub],
                                      state_after = s2\<lparr>sockets :=
                                        redis_publish ''product_updates'' message
                                          (sockets s2)\<rparr>\<rparr>))))"

text \<open>\<^verbatim>\<open>app.post('/publish')\<close> (server.js, lines 192-207).\<close>

definition post_publish :: "faults \<Rightarrow> jsval \<Rightarrow> jsval \<Rightarrow> state \<Rightarrow> result" where
  "post_publish f channel message s =
     (if \<not> truthy channel \<or> \<not> truthy message
      then \<lparr>response = Responded 400 (Error ''Channel and message are required''),
            calls = [], state_after = s\<rparr>
      else if publish_fails f
        then \<lparr>response = Responded 500 (Error ''Failed to publish message''),
              calls = [Redis_publish (str_of channel) (str_of message)], state_after = s\<rparr>
        else \<lparr>response = Responded 200 (Message ''Message published successfully''),
              calls = [Redis_publish (str_of channel) (str_of message)],
              state_after = s\<lparr>sockets :=
                redis_publish (str_of channel) (str_of message) (sockets s)\<rparr>\<rparr>)"

subsection \<open>Sequences of requests\<close>

datatype request =
    GET_products
  | POST_product product_body
  | POST_publish jsval jsval

fun handle :: "faults \<Rightarrow> nat \<Rightarrow> request \<Rightarrow> state \<Rightarrow> result" where
  "handle f now GET_products s = get_products f now s"
| "handle f now (POST_product b) s = post_product f b s"
| "handle f now (POST_publish channel message) s = post_publish f channel message s"

text \<open>Requests served one after the other, each at its own time and with its own faults.\<close>

fun run :: "(faults \<times> nat \<times> request) list \<Rightarrow> state \<Rightarrow> result list" where
  "run [] s = []"
| "run ((f, now, rq) # rest) s =
     (let r = handle f now rq s in r # run rest (state_after r))"

fun productIds :: "result list \<Rightarrow> nat list" where
  "productIds [] = []"
| "productIds (r # rs) =
     (case response r of
        Responded code (Created m i) \<Rightarrow> i # productIds rs
      | _ \<Rightarrow> productIds rs)"

definition no_faults :: faults where
  "no_faults = \<lparr>get_fails = False, all_fails = False, setEx_fails = False,
                 run_fails = False, del_fails = False, publish_fails = False\<rparr>"

text \<open>The server before its first request: an empty cache, a new table, no socket.\<close>

definition init :: state where
  "init = \<lparr>redis = [], db = \<lparr>products = [], sqlite_sequence = 0\<rparr>, sockets = []\<rparr>"

subsection \<open>Example data\<close>

text \<open>The product of the scenario of section 8, its row, and a server whose table holds it.\<close>

definition laptop :: product_body where
  "laptop = \<lparr>body_name = Str ''Laptop Pro'', body_description = Str ''fast''\<rparr>"

definition laptop_row :: product where
  "laptop_row = \<lparr>product_id = 1, product_name = ''Laptop Pro'', product_description = Some ''fast''\<rparr>"

definition one_product :: state where
  "one_product = init\<lparr>db := \<lparr>products = [laptop_row], sqlite_sequence = 1\<rparr>\<rparr>"

section \<open>The JSON text of a row sequence reads back as the sequence\<close>

lemma hexval_hexdig: "n < 16 \<Longrightarrow> hexval (hexdig n) = Some n"
proof -
  assume "n < 16"
  then consider "n = 0" | "n = 1" | "n = 2" | "n = 3" | "n = 4" | "n = 5" | "n = 6" | "n = 7"
    | "n = 8" | "n = 9" | "n = 10" | "n = 11" | "n = 12" | "n = 13" | "n = 14" | "n = 15"
    by atomize_elim arith
  then show ?thesis
    by cases (simp_all add: hexval_def hexdig_def)
qed

lemma special_neq: "dquote \<noteq> bslash" "bslash \<noteq> dquote"
  by (simp_all add: dquote_def bslash_def)

lemma char_of_of_char_nat: "char_of (of_char c :: nat) = c"
  by simp

lemma parse_chars_escape:
  "parse_chars (escape_char c @ rest) = map_option (apfst (Cons c)) (parse_chars rest)"
proof -
  consider (dq) "c = dquote" | (bs) "c = bslash" | (b) "c = CHR 0x08" | (f) "c = CHR 0x0C"
    | (n) "c = CHR 0x0A" | (r) "c = CHR 0x0D" | (t) "c = CHR 0x09"
    | (u) "c \<noteq> dquote" "c \<noteq> bslash" "c \<noteq> CHR 0x08" "c \<noteq> CHR 0x0C" "c \<noteq> CHR 0x0A"
        "c \<noteq> CHR 0x0D" "c \<noteq> CHR 0x09" "(of_char c :: nat) < 32"
    | (plain) "c \<noteq> dquote" "c \<noteq> bslash" "\<not> (of_char c :: nat) < 32"
    by blast
  then show ?thesis
  proof cases
    case u
    have hi: "(of_char c :: nat) div 16 < 16" and lo: "(of_char c :: nat) mod 16 < 16"
      using u(8) by simp_all
    have z: "hexval (CHR ''0'') = Some 0" by (simp add: hexval_def)
    have ne: "bslash \<noteq> dquote" by (simp add: special_neq)
    show ?thesis
      using u by (simp add: escape_char_def ne z hexval_hexdig[OF hi] hexval_hexdig[OF lo])
  qed (simp_all add: escape_char_def simple_escape_def dquote_def bslash_def)
qed

lemma parse_chars_concat:
  "parse_chars (concat (map escape_char s) @ dquote # rest) = Some (s, rest)"
  by (induction s) (simp_all add: parse_chars_escape)

lemma parse_string_quote: "parse_string (QuoteJSONString s @ rest) = Some (s, rest)"
  by (simp add: parse_string_def QuoteJSONString_def parse_chars_concat)


lemma digit_char:
  assumes "d < 10"
  shows "is_digit (char_of (48 + d))" and "digit_val (char_of (48 + d)) = d"
    and "(char_of (48 + d) = CHR ''0'') = (d = 0)"
proof -
  have m: "(48 + d) mod 256 = 48 + d" using assms by simp
  show "is_digit (char_of (48 + d))" using assms by (simp add: is_digit_def m)
  show "digit_val (char_of (48 + d)) = d" by (simp add: digit_val_def m)
  have "(of_char (char_of (48 + d)) = (of_char (CHR ''0'') :: nat)) = (d = 0)"
    by (simp add: m)
  then show "(char_of (48 + d) = CHR ''0'') = (d = 0)"
    by (metis of_char_eq_iff)
qed

lemma showNat_not_Nil: "showNat n \<noteq> []"
  by (subst showNat.simps) simp

lemma showNat_digits: "c \<in> set (showNat n) \<Longrightarrow> is_digit c"
proof (induction n rule: showNat.induct)
  case (1 n)
  show ?case
  proof (cases "n < 10")
    case True
    with "1.prems" show ?thesis
      by (subst (asm) showNat.simps) (simp add: digit_char)
  next
    case False
    with "1.prems" have "c \<in> set (showNat (n div 10)) \<or> c = char_of (48 + n mod 10)"
      by (subst (asm) showNat.simps) auto
    then show ?thesis
      using "1.IH" False by (auto simp: digit_char)
  qed
qed

lemma showNat_value: "foldl (\<lambda>a c. 10 * a + digit_val c) 0 (showNat n) = n"
proof (induction n rule: showNat.induct)
  case (1 n)
  show ?case
  proof (cases "n < 10")
    case True
    then show ?thesis by (subst showNat.simps) (simp add: digit_char)
  next
    case False
    then show ?thesis
      using "1.IH" by (subst showNat.simps) (simp add: digit_char)
  qed
qed

lemma showNat_leading: "0 < n \<Longrightarrow> hd (showNat n) \<noteq> CHR ''0''"
proof (induction n rule: showNat.induct)
  case (1 n)
  show ?case
  proof (cases "n < 10")
    case True
    with "1.prems" show ?thesis by (subst showNat.simps) (simp add: digit_char)
  next
    case False
    then have "0 < n div 10" by simp
    with "1.IH" False have "hd (showNat (n div 10)) \<noteq> CHR ''0''" by simp
    then show ?thesis
      using False by (subst showNat.simps) (simp add: showNat_not_Nil)
  qed
qed

lemma showNat_zero: "showNat 0 = ''0''"
  using digit_char(3)[of 0] by (subst showNat.simps) simp

lemma parse_nat_showNat:
  assumes "\<not> is_digit c"
  shows "parse_nat (showNat n @ c # rest) = Some (n, c # rest)"
proof -
  have tw: "takeWhile is_digit (showNat n @ c # rest) = showNat n"
    using assms by (simp add: takeWhile_append2 showNat_digits)
  have dw: "dropWhile is_digit (showNat n @ c # rest) = c # rest"
    using assms by (simp add: dropWhile_append2 showNat_digits)
  have lead: "\<not> (hd (showNat n) = CHR ''0'' \<and> 1 < length (showNat n))"
  proof (cases "n = 0")
    case True
    then show ?thesis by (simp add: showNat_zero)
  next
    case False
    then show ?thesis using showNat_leading[of n] by simp
  qed
  show ?thesis
    unfolding parse_nat_def tw dw using lead by (simp add: Let_def showNat_not_Nil showNat_value)
qed

lemma expect_append: "expect p (p @ rest) = Some rest"
  by (simp add: expect_def)

lemma parse_description_stringify:
  "parse_description ((case d of None \<Rightarrow> ''null'' | Some x \<Rightarrow> QuoteJSONString x) @ rest) = Some (d, rest)"
proof (cases d)
  case None
  then show ?thesis
    using expect_append[of "''null''" rest] by (simp add: parse_description_def)
next
  case (Some x)
  have "expect ''null'' (QuoteJSONString x @ rest) = None"
    by (simp add: expect_def QuoteJSONString_def dquote_def)
  then show ?thesis
    using Some by (simp add: parse_description_def parse_string_quote)
qed

lemma comma_not_digit: "\<not> is_digit (CHR '','')"
  by (simp add: is_digit_def)

lemma parse_product_stringify:
  "parse_product (stringify_product r @ rest) = Some (r, rest)"
proof -
  let ?d = "(case product_description r of None \<Rightarrow> ''null'' | Some x \<Rightarrow> QuoteJSONString x)"
  let ?s6 = "''}'' @ rest"
  let ?s5 = "?d @ ?s6"
  let ?s4 = \<open>'',"description":'' @ ?s5\<close>
  let ?s3 = "QuoteJSONString (product_name r) @ ?s4"
  let ?s2 = \<open>'',"name":'' @ ?s3\<close>
  let ?s1 = "showNat (product_id r) @ ?s2"
  have e0: \<open>expect ''{"id":'' (stringify_product r @ rest) = Some ?s1\<close>
    using expect_append[of \<open>''{"id":''\<close> ?s1] by (simp add: stringify_product_def)
  have e1: "parse_nat ?s1 = Some (product_id r, ?s2)"
    using parse_nat_showNat[OF comma_not_digit] by simp
  have e2: \<open>expect '',"name":'' ?s2 = Some ?s3\<close>
    by (rule expect_append)
  have e3: "parse_string ?s3 = Some (product_name r, ?s4)"
    by (rule parse_string_quote)
  have e4: \<open>expect '',"description":'' ?s4 = Some ?s5\<close>
    by (rule expect_append)
  have e5: "parse_description ?s5 = Some (product_description r, ?s6)"
    by (rule parse_description_stringify)
  have e6: "expect ''}'' ?s6 = Some rest"
    by (rule expect_append)
  show ?thesis
    unfolding parse_product_def e0 by (simp only: e1 e2 e3 e4 e5 e6 bind.bind_lunit prod.case) simp
qed


lemma join_comma_Cons: "join_comma (x # xs) = x @ concat (map (\<lambda>y. '','' @ y) xs)"
  by (induction xs arbitrary: x) simp_all

lemma stringify_product_Cons: "\<exists>t. stringify_product r = CHR ''{'' # t"
  by (simp add: stringify_product_def)

lemma parse_more_end: "parse_more '']'' = Some []"
  by (subst parse_more.simps) simp

lemma parse_more_step:
  "parse_more (CHR '','' # stringify_product r @ rest) = map_option (Cons r) (parse_more rest)"
proof -
  obtain t where t: "stringify_product r = CHR ''{'' # t"
    using stringify_product_Cons by blast
  have len: "length rest < length (stringify_product r @ rest)"
    by (simp add: t)
  show ?thesis
    by (subst parse_more.simps) (simp add: parse_product_stringify len del: length_append)
qed

lemma parse_more_stringify:
  "parse_more (concat (map (\<lambda>y. '','' @ y) (map stringify_product rs)) @ '']'') = Some rs"
  by (induction rs) (simp_all add: parse_more_end parse_more_step)

lemma JSON_parse_Cons:
  "JSON_parse (CHR ''['' # stringify_product r @ rest) = map_option (Cons r) (parse_more rest)"
proof -
  obtain t where t: "stringify_product r = CHR ''{'' # t"
    using stringify_product_Cons by blast
  have ne: "stringify_product r @ rest \<noteq> '']''"
    by (simp add: t)
  show ?thesis
    by (simp add: JSON_parse_def ne parse_product_stringify)
qed

lemma JSON_roundtrip: "JSON_parse (JSON_stringify rows) = Some rows"
proof (cases rows)
  case Nil
  then show ?thesis by (simp add: JSON_parse_def JSON_stringify_def)
next
  case (Cons r rs)
  let ?rest = "concat (map (\<lambda>y. '','' @ y) (map stringify_product rs)) @ '']''"
  have s: "JSON_stringify rows = CHR ''['' # stringify_product r @ ?rest"
    by (simp add: JSON_stringify_def Cons join_comma_Cons)
  show ?thesis
    unfolding s by (simp only: JSON_parse_Cons parse_more_stringify Cons) simp
qed

lemma JSON_stringify_not_Nil: "JSON_stringify rows \<noteq> []"
  by (simp add: JSON_stringify_def)

section \<open>Reading through the cache\<close>

lemma redis_get_setEx:
  "redis_get (redis_setEx r k ttl v now) k t = (if now + ttl < t then None else Some v)"
  by (simp add: redis_get_def redis_setEx_def update_conv')

lemma get_products_hit:
  assumes "\<not> get_fails f" and "redis_get (redis s) cacheKey now = Some v" and "v \<noteq> []"
  shows "get_products f now s =
    (case JSON_parse v of
       Some rows \<Rightarrow> \<lparr>response = Responded 200 (Rows rows), calls = [Redis_get cacheKey], state_after = s\<rparr>
     | None \<Rightarrow> \<lparr>response = Responded 500 (Error ''Internal server error''),
                 calls = [Redis_get cacheKey], state_after = s\<rparr>)"
  using assms by (simp add: get_products_def)

lemma get_products_miss:
  assumes "\<not> get_fails f"
    and "redis_get (redis s) cacheKey now = None \<or> redis_get (redis s) cacheKey now = Some []"
  shows "get_products f now s =
    (db_all_callback f now s)\<lparr>calls := Redis_get cacheKey # calls (db_all_callback f now s)\<rparr>"
  using assms by (auto simp add: get_products_def Let_def)

lemma get_products_fresh:
  assumes "response (get_products f now s) = Responded 200 (Rows rows)"
    and "Db_all \<in> set (calls (get_products f now s))"
  shows "rows = db_all (db s) \<and>
    state_after (get_products f now s) =
      s\<lparr>redis := redis_setEx (redis s) cacheKey 3600 (JSON_stringify rows) now\<rparr>"
  using assms
  by (auto simp add: get_products_def db_all_callback_def Let_def split: if_splits option.splits)

lemma run_hits:
  assumes "\<forall>(f, t) \<in> set reads. \<not> get_fails f \<and> redis_get (redis s) cacheKey t = Some v"
    and "v \<noteq> []" and "JSON_parse v = Some rows"
  shows "run (map (\<lambda>(f, t). (f, t, GET_products)) reads) s =
    replicate (length reads)
      \<lparr>response = Responded 200 (Rows rows), calls = [Redis_get cacheKey], state_after = s\<rparr>"
  using assms
proof (induction reads)
  case Nil
  show ?case by simp
next
  case (Cons a reads)
  obtain f t where a: "a = (f, t)" by (cases a)
  from Cons.prems(1) a have h: "\<not> get_fails f" "redis_get (redis s) cacheKey t = Some v"
    by simp_all
  have "get_products f t s =
    \<lparr>response = Responded 200 (Rows rows), calls = [Redis_get cacheKey], state_after = s\<rparr>"
    using get_products_hit[OF h Cons.prems(2)] Cons.prems(3) by simp
  moreover have "run (map (\<lambda>(f, t). (f, t, GET_products)) reads) s =
    replicate (length reads)
      \<lparr>response = Responded 200 (Rows rows), calls = [Redis_get cacheKey], state_after = s\<rparr>"
    using Cons.IH Cons.prems by simp
  ultimately show ?case by (simp add: a Let_def)
qed

section \<open>The steps of a write\<close>

lemma post_product_inserted:
  assumes "truthy (body_name b)" and "\<not> run_fails f"
    and "db_run_insert (db s) (sql_param (body_name b)) (sql_param (body_description b)) = Some (d, i)"
  shows "post_product f b s =
    (let ins = Db_run (sql_param (body_name b)) (sql_param (body_description b));
         message = stringify_event
           \<lparr>event_type = ''NEW_PRODUCT'', payload_id = i,
            payload_name = body_name b, payload_description = body_description b\<rparr>;
         pub = Redis_publish ''product_updates'' message
     in if del_fails f
        then \<lparr>response = No_response, calls = [ins, Redis_del cacheKey],
              state_after = s\<lparr>db := d\<rparr>\<rparr>
        else if publish_fails f
        then \<lparr>response = No_response, calls = [ins, Redis_del cacheKey, pub],
              state_after = s\<lparr>db := d, redis := redis_del (redis s) cacheKey\<rparr>\<rparr>
        else \<lparr>response = Responded 201
                (Created ''Product added successfully and cache invalidated'' i),
              calls = [ins, Redis_del cacheKey, pub],
              state_after = s\<lparr>db := d, redis := redis_del (redis s) cacheKey,
                sockets := redis_publish ''product_updates'' message (sockets s)\<rparr>\<rparr>)"
  using assms by (simp add: post_product_def Let_def)

lemma post_product_not_inserted:
  assumes "truthy (body_name b)"
    and "run_fails f \<or>
      db_run_insert (db s) (sql_param (body_name b)) (sql_param (body_description b)) = None"
  shows "post_product f b s =
    \<lparr>response = Responded 500 (Error ''Failed to add product to database''),
     calls = [Db_run (sql_param (body_name b)) (sql_param (body_description b))],
     state_after = s\<rparr>"
  using assms by (auto simp add: post_product_def Let_def)

lemma get_products_setEx_calls:
  "Redis_setEx k ttl v \<in> set (calls (get_products f now s)) \<Longrightarrow> k = cacheKey \<and> ttl = 3600"
  by (auto simp add: get_products_def db_all_callback_def Let_def split: if_splits option.splits)

lemma post_product_setEx_calls:
  "Redis_setEx k ttl v \<notin> set (calls (post_product f b s))"
  by (auto simp add: post_product_def Let_def split: if_splits option.splits)

lemma post_publish_setEx_calls:
  "Redis_setEx k ttl v \<notin> set (calls (post_publish f c m s))"
  by (auto simp add: post_publish_def split: if_splits)

section \<open>Keys of the table\<close>

lemma fold_max_ge: "(a::nat) \<le> fold max xs a \<and> (\<forall>x \<in> set xs. x \<le> fold max xs a)"
proof (induction xs arbitrary: a)
  case Nil
  show ?case by simp
next
  case (Cons y ys)
  have "max y a \<le> fold max ys (max y a)" and "\<forall>x \<in> set ys. x \<le> fold max ys (max y a)"
    using Cons.IH[of "max y a"] by simp_all
  then show ?case by auto
qed

lemma largest_rowid_bounds:
  "sqlite_sequence d \<le> largest_rowid d" "p \<in> set (products d) \<Longrightarrow> product_id p \<le> largest_rowid d"
  using fold_max_ge[of 0 "map product_id (products d)"]
  by (auto simp add: largest_rowid_def)

lemma db_run_insert_Some:
  assumes "db_run_insert d n desc = Some (d', i)"
  shows "i = Suc (largest_rowid d)" and "sqlite_sequence d' = i"
    and "\<exists>x. n = Some x \<and> products d' = products d @
      [\<lparr>product_id = i, product_name = x, product_description = desc\<rparr>]"
  using assms
  by (auto simp add: db_run_insert_def next_rowid_def Let_def split: option.splits if_splits)

lemma largest_rowid_after_insert:
  assumes "db_run_insert d n desc = Some (d', i)"
  shows "largest_rowid d' = i"
proof -
  from db_run_insert_Some[OF assms] obtain x where
    i: "i = Suc (largest_rowid d)" and sq: "sqlite_sequence d' = i"
    and pr: "products d' = products d @ [\<lparr>product_id = i, product_name = x, product_description = desc\<rparr>]"
    by blast
  have "fold max (map product_id (products d)) 0 \<le> largest_rowid d"
    by (simp add: largest_rowid_def)
  then have "fold max (map product_id (products d')) 0 \<le> i"
    using i by (simp add: pr)
  then show ?thesis
    by (simp add: largest_rowid_def sq)
qed

lemma handle_rowid:
  "largest_rowid (db s) \<le> largest_rowid (db (state_after (handle f now rq s)))
   \<and> (\<forall>c m i. response (handle f now rq s) = Responded c (Created m i) \<longrightarrow>
        largest_rowid (db s) < i \<and> largest_rowid (db (state_after (handle f now rq s))) = i)"
proof (cases rq)
  case GET_products
  then show ?thesis
    by (auto simp add: get_products_def db_all_callback_def Let_def split: option.splits)
next
  case (POST_publish c m)
  then show ?thesis
    by (auto simp add: post_publish_def)
next
  case (POST_product b)
  show ?thesis
  proof (cases "truthy (body_name b)")
    case False
    then show ?thesis by (simp add: POST_product post_product_def Let_def)
  next
    case True
    show ?thesis
    proof (cases "run_fails f \<or>
        db_run_insert (db s) (sql_param (body_name b)) (sql_param (body_description b)) = None")
      case True
      with \<open>truthy (body_name b)\<close> show ?thesis
        by (simp add: POST_product post_product_not_inserted)
    next
      case False
      then obtain d i where nr: "\<not> run_fails f" and ins:
        "db_run_insert (db s) (sql_param (body_name b)) (sql_param (body_description b)) = Some (d, i)"
        by auto
      have l: "largest_rowid d = i" by (rule largest_rowid_after_insert[OF ins])
      have i: "i = Suc (largest_rowid (db s))" by (rule db_run_insert_Some(1)[OF ins])
      show ?thesis
        using l i by (simp add: POST_product post_product_inserted[OF True nr ins] Let_def)
    qed
  qed
qed

lemma productIds_run:
  "sorted_wrt (<) (productIds (run reqs s))
   \<and> (\<forall>i \<in> set (productIds (run reqs s)). largest_rowid (db s) < i)"
proof (induction reqs arbitrary: s)
  case Nil
  show ?case by simp
next
  case (Cons a reqs)
  obtain f now rq where a: "a = (f, now, rq)" by (cases a)
  let ?r = "handle f now rq s"
  let ?rest = "productIds (run reqs (state_after ?r))"
  have mono: "largest_rowid (db s) \<le> largest_rowid (db (state_after ?r))"
    using handle_rowid by blast
  have ih: "sorted_wrt (<) ?rest" "\<forall>i \<in> set ?rest. largest_rowid (db (state_after ?r)) < i"
    using Cons.IH[of "state_after ?r"] by simp_all
  have run: "run (a # reqs) s = ?r # run reqs (state_after ?r)"
    by (simp add: a Let_def)
  show ?case
  proof (cases "\<exists>c m i. response ?r = Responded c (Created m i)")
    case True
    then obtain c m i where r: "response ?r = Responded c (Created m i)" by blast
    then have i: "largest_rowid (db s) < i" "largest_rowid (db (state_after ?r)) = i"
      using handle_rowid by blast+
    have "productIds (run (a # reqs) s) = i # ?rest"
      by (simp add: run r)
    then show ?thesis
      using ih i by auto
  next
    case False
    then have "productIds (run (a # reqs) s) = ?rest"
      by (auto simp add: run split: outcome.splits body.splits)
    then show ?thesis
      using ih mono by auto
  qed
qed

section \<open>The text of the published event\<close>

lemma quote_keys:
  \<open>QuoteJSONString ''type'' = ''"type"''\<close>
  \<open>QuoteJSONString ''payload'' = ''"payload"''\<close>
  \<open>QuoteJSONString ''id'' = ''"id"''\<close>
  \<open>QuoteJSONString ''name'' = ''"name"''\<close>
  \<open>QuoteJSONString ''description'' = ''"description"''\<close>
  by (simp_all add: QuoteJSONString_def escape_char_def dquote_def bslash_def)

lemma quote_Cons: "QuoteJSONString s = dquote # concat (map escape_char s) @ [dquote]"
  by (simp add: QuoteJSONString_def)

lemma parse_scalar_null: "parse_scalar (''null'' @ r) = Some (SNull, r)"
  using expect_append[of "''null''" r] by (simp add: parse_scalar_def)

lemma parse_scalar_quote: "parse_scalar (QuoteJSONString s @ r) = Some (SStr s, r)"
proof -
  have "expect ''null'' (QuoteJSONString s @ r) = None"
    by (simp add: expect_def QuoteJSONString_def dquote_def)
  then show ?thesis
    by (simp add: parse_scalar_def QuoteJSONString_def parse_chars_concat)
qed

lemma parse_scalar_showNat:
  assumes "\<not> is_digit c"
  shows "parse_scalar (showNat n @ c # r) = Some (SNum n, c # r)"
proof -
  obtain d ds where sh: "showNat n = d # ds"
    using showNat_not_Nil[of n] by (cases "showNat n") auto
  have dig: "is_digit d"
    using showNat_digits[of d n] sh by simp
  have d1: "d \<noteq> CHR ''n''" and d2: "d \<noteq> dquote"
    using dig by (auto simp add: is_digit_def dquote_def)
  have e: "expect ''null'' (showNat n @ c # r) = None"
    using d1 by (simp add: expect_def sh)
  have "parse_scalar (showNat n @ c # r) = map_option (apfst SNum) (parse_nat (showNat n @ c # r))"
    using e d2 by (simp add: parse_scalar_def sh)
  then show ?thesis
    by (simp add: parse_nat_showNat[OF assms])
qed

lemma brace_comma_not_digit: "\<not> is_digit (CHR ''}'')" "\<not> is_digit (CHR '','')"
  by (simp_all add: is_digit_def)

lemma parse_scalar_members_last:
  assumes "parse_scalar (vt @ CHR ''}'' # r) = Some (v, CHR ''}'' # r)"
  shows "parse_scalar_members (QuoteJSONString k @ '':'' @ vt @ CHR ''}'' # r) = Some ([(k, v)], r)"
  by (subst parse_scalar_members.simps)
    (simp add: parse_string_quote expect_def assms)

lemma parse_scalar_members_more:
  assumes "parse_scalar (vt @ CHR '','' # rest) = Some (v, CHR '','' # rest)"
  shows "parse_scalar_members (QuoteJSONString k @ '':'' @ vt @ CHR '','' # rest) =
    map_option (apfst (Cons (k, v))) (parse_scalar_members rest)"
  by (subst parse_scalar_members.simps)
    (simp add: parse_string_quote expect_def assms)

lemma parse_payload:
  "parse_flat_object
     (CHR ''{'' # join_comma ([QuoteJSONString ''id'' @ '':'' @ showNat i] @
        stringify_member ''name'' (Str n) @ stringify_member ''description'' d) @ CHR ''}'' # r) =
   Some ((''id'', SNum i) # (''name'', SStr n) #
     (case d of Undefined \<Rightarrow> [] | Null \<Rightarrow> [(''description'', SNull)]
      | Str x \<Rightarrow> [(''description'', SStr x)]), r)"
proof -
  let ?idm = "QuoteJSONString ''id'' @ '':'' @ showNat i"
  have first: "\<And>rest. parse_scalar_members (?idm @ CHR '','' # rest) =
      map_option (apfst (Cons (''id'', SNum i))) (parse_scalar_members rest)"
    using parse_scalar_members_more[OF parse_scalar_showNat[OF brace_comma_not_digit(2)]]
    by simp
  have nm_last: "parse_scalar_members (QuoteJSONString ''name'' @ '':'' @ QuoteJSONString n @ CHR ''}'' # r)
      = Some ([(''name'', SStr n)], r)"
    using parse_scalar_members_last[OF parse_scalar_quote[of n "CHR ''}'' # r"]]
    by simp
  have nm_more: "\<And>rest. parse_scalar_members
        (QuoteJSONString ''name'' @ '':'' @ QuoteJSONString n @ CHR '','' # rest)
      = map_option (apfst (Cons (''name'', SStr n))) (parse_scalar_members rest)"
    using parse_scalar_members_more[OF parse_scalar_quote[of n "CHR '','' # _"]]
    by simp
  have ds_null: "parse_scalar_members (QuoteJSONString ''description'' @ '':'' @ ''null'' @ CHR ''}'' # r)
      = Some ([(''description'', SNull)], r)"
    using parse_scalar_members_last[OF parse_scalar_null[of "CHR ''}'' # r"], of "''description''"]
    by simp
  have ds_str: "\<And>x. parse_scalar_members
        (QuoteJSONString ''description'' @ '':'' @ QuoteJSONString x @ CHR ''}'' # r)
      = Some ([(''description'', SStr x)], r)"
    using parse_scalar_members_last[OF parse_scalar_quote[of _ "CHR ''}'' # r"]]
    by simp
  have start: "\<And>rest. parse_flat_object (CHR ''{'' # ?idm @ rest) = parse_scalar_members (?idm @ rest)"
    by (simp add: parse_flat_object_def quote_Cons dquote_def)
  show ?thesis
  proof (cases d)
    case Undefined
    have "parse_flat_object (CHR ''{'' # ?idm @ CHR '','' #
        QuoteJSONString ''name'' @ '':'' @ QuoteJSONString n @ CHR ''}'' # r) =
      Some ([(''id'', SNum i), (''name'', SStr n)], r)"
      by (simp only: start first nm_last) simp
    then show ?thesis by (simp add: Undefined)
  next
    case Null
    have "parse_flat_object (CHR ''{'' # ?idm @ CHR '','' #
        QuoteJSONString ''name'' @ '':'' @ QuoteJSONString n @ CHR '','' #
        QuoteJSONString ''description'' @ '':'' @ ''null'' @ CHR ''}'' # r) =
      Some ([(''id'', SNum i), (''name'', SStr n), (''description'', SNull)], r)"
      by (simp only: start first nm_more ds_null) simp
    then show ?thesis by (simp add: Null)
  next
    case (Str x)
    have "parse_flat_object (CHR ''{'' # ?idm @ CHR '','' #
        QuoteJSONString ''name'' @ '':'' @ QuoteJSONString n @ CHR '','' #
        QuoteJSONString ''description'' @ '':'' @ QuoteJSONString x @ CHR ''}'' # r) =
      Some ([(''id'', SNum i), (''name'', SStr n), (''description'', SStr x)], r)"
      by (simp only: start first nm_more ds_str) simp
    then show ?thesis by (simp add: Str)
  qed
qed

lemma parse_member_value_quote:
  "parse_member_value (QuoteJSONString s @ r) = Some (Scalar (SStr s), r)"
proof -
  have "parse_member_value (QuoteJSONString s @ r) =
      map_option (apfst Scalar) (parse_scalar (QuoteJSONString s @ r))"
    by (simp add: parse_member_value_def quote_Cons dquote_def)
  then show ?thesis by (simp add: parse_scalar_quote)
qed

lemma parse_member_value_object:
  "parse_member_value (CHR ''{'' # x) = map_option (apfst Object) (parse_flat_object (CHR ''{'' # x))"
  by (simp add: parse_member_value_def)

lemma parse_members_last:
  assumes "parse_member_value s2 = Some (v, CHR ''}'' # r)"
  shows "parse_members (QuoteJSONString k @ '':'' @ s2) = Some ([(k, v)], r)"
  by (subst parse_members.simps) (simp add: parse_string_quote expect_def assms)

lemma parse_members_more:
  assumes "parse_member_value (vt @ CHR '','' # rest) = Some (v, CHR '','' # rest)"
  shows "parse_members (QuoteJSONString k @ '':'' @ vt @ CHR '','' # rest) =
    map_option (apfst (Cons (k, v))) (parse_members rest)"
  by (subst parse_members.simps) (simp add: parse_string_quote expect_def assms)

lemma stringify_event_form:
  "stringify_event \<lparr>event_type = t, payload_id = i, payload_name = Str n, payload_description = d\<rparr> =
     CHR ''{'' # QuoteJSONString ''type'' @ '':'' @ QuoteJSONString t @ CHR '','' #
       QuoteJSONString ''payload'' @ '':'' @
       CHR ''{'' # join_comma ([QuoteJSONString ''id'' @ '':'' @ showNat i] @
          stringify_member ''name'' (Str n) @ stringify_member ''description'' d) @ CHR ''}'' # ''}''"
  by (simp add: stringify_event_def quote_keys)

lemma event_parse:
  "JSON_parse_object
     (stringify_event \<lparr>event_type = t, payload_id = i, payload_name = Str n, payload_description = d\<rparr>) =
   Some [(''type'', Scalar (SStr t)),
         (''payload'', Object ((''id'', SNum i) # (''name'', SStr n) #
            (case d of Undefined \<Rightarrow> [] | Null \<Rightarrow> [(''description'', SNull)]
             | Str x \<Rightarrow> [(''description'', SStr x)])))]"
proof -
  let ?ms = "(''id'', SNum i) # (''name'', SStr n) #
            (case d of Undefined \<Rightarrow> [] | Null \<Rightarrow> [(''description'', SNull)]
             | Str x \<Rightarrow> [(''description'', SStr x)])"
  let ?obj = "CHR ''{'' # join_comma ([QuoteJSONString ''id'' @ '':'' @ showNat i] @
          stringify_member ''name'' (Str n) @ stringify_member ''description'' d) @ CHR ''}'' # ''}''"
  let ?second = "QuoteJSONString ''payload'' @ '':'' @ ?obj"
  let ?first = "QuoteJSONString ''type'' @ '':'' @ QuoteJSONString t @ CHR '','' # ?second"
  have v: "parse_member_value ?obj = Some (Object ?ms, ''}'')"
    by (simp only: parse_member_value_object parse_payload) simp
  have s: "parse_members ?second = Some ([(''payload'', Object ?ms)], [])"
    using parse_members_last[OF v[simplified]] v by (simp add: parse_members_last)
  have f: "parse_members ?first = Some ([(''type'', Scalar (SStr t)), (''payload'', Object ?ms)], [])"
    using parse_members_more[OF parse_member_value_quote[of t "CHR '','' # ?second"], of "''type''"] s
    by simp
  have ne: "?first \<noteq> ''}''"
    by (simp add: quote_Cons dquote_def)
  have "JSON_parse_object (CHR ''{'' # ?first) =
      Some [(''type'', Scalar (SStr t)), (''payload'', Object ?ms)]"
    using f ne by (simp add: JSON_parse_object_def)
  then show ?thesis
    by (simp only: stringify_event_form)
qed

lemma event_text:
  \<open>stringify_event \<lparr>event_type = ''NEW_PRODUCT'', payload_id = i, payload_name = Str n,
      payload_description = d\<rparr> =
    ''{"type":"NEW_PRODUCT","payload":{"id":'' @ showNat i @ '',"name":'' @ QuoteJSONString n @
      (case d of Undefined \<Rightarrow> [] | Null \<Rightarrow> '',"description":null''
       | Str x \<Rightarrow> '',"description":'' @ QuoteJSONString x) @ ''}}''\<close>
  by (cases d) (simp_all add: stringify_event_def QuoteJSONString_def escape_char_def
      dquote_def bslash_def)

lemma showNat_one: "showNat (Suc 0) = ''1''"
proof -
  have "(of_char (char_of (49::nat)) :: nat) = of_char (CHR ''1'')"
    by simp
  then have "char_of (49::nat) = CHR ''1''"
    by (metis of_char_eq_iff)
  then show ?thesis
    by (subst showNat.simps) simp
qed

section \<open>The claims\<close>

text \<open>
  C1. Take a read of \<^verbatim>\<open>GET /products\<close> at time \<open>t0\<close> that missed the cache, was served
  from the table and populated the cache. Every later read whose cache get answers, made
  at a time up to \<open>t0 + 3600\<close> with no write in between, is served from the cache alone,
  returns the rows of the first read and leaves the state as it is. The text that
  \<^verbatim>\<open>JSON.stringify\<close> makes of a row sequence is parsed back by \<^verbatim>\<open>JSON.parse\<close> to the same
  sequence, and a get after a \<^verbatim>\<open>setEx\<close> within the time to live returns the value set.
\<close>

theorem reads_agree_until_expiry:
  assumes "response (get_products f0 t0 s) = Responded 200 (Rows rows)"
    and "Db_all \<in> set (calls (get_products f0 t0 s))"
    and "\<forall>(f, t) \<in> set reads. \<not> get_fails f \<and> t \<le> t0 + 3600"
  shows "run (map (\<lambda>(f, t). (f, t, GET_products)) reads) (state_after (get_products f0 t0 s)) =
      replicate (length reads)
        \<lparr>response = Responded 200 (Rows rows), calls = [Redis_get cacheKey],
         state_after = state_after (get_products f0 t0 s)\<rparr>
    \<and> JSON_parse (JSON_stringify rs) = Some rs
    \<and> (t \<le> now + ttl \<longrightarrow> redis_get (redis_setEx r k ttl v now) k t = Some v)"
proof -
  let ?s' = "state_after (get_products f0 t0 s)"
  let ?v = "JSON_stringify rows"
  from get_products_fresh[OF assms(1,2)]
  have s': "?s' = s\<lparr>redis := redis_setEx (redis s) cacheKey 3600 ?v t0\<rparr>" by simp
  have alive: "\<forall>(f, t) \<in> set reads. \<not> get_fails f \<and> redis_get (redis ?s') cacheKey t = Some ?v"
    using assms(3) by (auto simp add: s' redis_get_setEx)
  have "run (map (\<lambda>(f, t). (f, t, GET_products)) reads) ?s' =
      replicate (length reads)
        \<lparr>response = Responded 200 (Rows rows), calls = [Redis_get cacheKey], state_after = ?s'\<rparr>"
    by (rule run_hits[OF alive JSON_stringify_not_Nil JSON_roundtrip])
  then show ?thesis
    by (simp add: JSON_roundtrip redis_get_setEx)
qed

theorem reads_agree_until_expiry_witness:
  "response (get_products no_faults 0 one_product) = Responded 200 (Rows [laptop_row])
   \<and> Db_all \<in> set (calls (get_products no_faults 0 one_product))
   \<and> \<not> get_fails no_faults \<and> (5::nat) \<le> 0 + 3600
   \<and> run [(no_faults, 5, GET_products), (no_faults, 3600, GET_products)]
        (state_after (get_products no_faults 0 one_product)) =
      [\<lparr>response = Responded 200 (Rows [laptop_row]), calls = [Redis_get cacheKey],
        state_after = state_after (get_products no_faults 0 one_product)\<rparr>,
       \<lparr>response = Responded 200 (Rows [laptop_row]), calls = [Redis_get cacheKey],
        state_after = state_after (get_products no_faults 0 one_product)\<rparr>]
   \<and> JSON_parse (JSON_stringify [laptop_row]) = Some [laptop_row]
   \<and> (3600::nat) \<le> 0 + 3600
   \<and> redis_get (redis_setEx [] cacheKey 3600 (JSON_stringify [laptop_row]) 0) cacheKey 3600
       = Some (JSON_stringify [laptop_row])"
proof -
  have h1: "response (get_products no_faults 0 one_product) = Responded 200 (Rows [laptop_row])"
    by (simp add: get_products_def db_all_callback_def no_faults_def one_product_def init_def
        redis_get_def db_all_def Let_def)
  have h2: "Db_all \<in> set (calls (get_products no_faults 0 one_product))"
    by (simp add: get_products_def db_all_callback_def no_faults_def one_product_def init_def
        redis_get_def db_all_def Let_def)
  have h3: "\<forall>(f, t) \<in> set [(no_faults, 5::nat), (no_faults, 3600)]. \<not> get_fails f \<and> t \<le> 0 + 3600"
    by (simp add: no_faults_def)
  have h4: "(3600::nat) \<le> 0 + 3600" by simp
  have h5: "\<not> get_fails no_faults \<and> (5::nat) \<le> 0 + 3600" by (simp add: no_faults_def)
  have c: "run (map (\<lambda>(f, t). (f, t, GET_products)) [(no_faults, 5), (no_faults, 3600)])
        (state_after (get_products no_faults 0 one_product)) =
      replicate (length [(no_faults, 5::nat), (no_faults, 3600)])
        \<lparr>response = Responded 200 (Rows [laptop_row]), calls = [Redis_get cacheKey],
         state_after = state_after (get_products no_faults 0 one_product)\<rparr>
    \<and> JSON_parse (JSON_stringify [laptop_row]) = Some [laptop_row]
    \<and> ((3600::nat) \<le> 0 + 3600 \<longrightarrow>
         redis_get (redis_setEx [] cacheKey 3600 (JSON_stringify [laptop_row]) 0) cacheKey 3600
           = Some (JSON_stringify [laptop_row]))"
    by (rule reads_agree_until_expiry[OF h1 h2 h3])
  have r: "replicate (length [(no_faults, 5::nat), (no_faults, 3600)]) x = [x, x]" for x :: result
    by (simp add: numeral_2_eq_2)
  have m: "map (\<lambda>(f, t). (f, t, GET_products)) [(no_faults, 5::nat), (no_faults, 3600)]
      = [(no_faults, 5, GET_products), (no_faults, 3600, GET_products)]"
    by simp
  show ?thesis
    using h1 h2 h4 h5 c unfolding r m by blast
qed

text \<open>
  C2, as stated, fails: a rejected cache get is caught by the handler's \<^verbatim>\<open>catch\<close>, which
  answers 500; the rows of the table are not returned.
\<close>

theorem cache_get_failure_counterexample:
  "response (get_products (no_faults\<lparr>get_fails := True\<rparr>) 0 init)
     = Responded 500 (Error ''Internal server error'')
   \<and> response (get_products (no_faults\<lparr>get_fails := True\<rparr>) 0 init)
     \<noteq> Responded 200 (Rows (db_all (db init)))"
  by (simp add: get_products_def no_faults_def)

text \<open>
  C2, amended. A rejected cache get fails the request: the answer is 500 with
  \<^verbatim>\<open>Internal server error\<close>, the table is not read and the state is unchanged. When the
  get answers with a miss, the scan succeeds and the cache set succeeds, the rows of the
  table are returned with status 200.
\<close>

theorem cache_get_failure_is_500:
  "(get_fails f \<longrightarrow>
      get_products f now s =
        \<lparr>response = Responded 500 (Error ''Internal server error''),
         calls = [Redis_get cacheKey], state_after = s\<rparr>)
   \<and> (\<not> get_fails g
        \<and> (redis_get (redis s') cacheKey t = None \<or> redis_get (redis s') cacheKey t = Some [])
        \<and> \<not> all_fails g \<and> \<not> setEx_fails g
        \<longrightarrow> response (get_products g t s') = Responded 200 (Rows (db_all (db s'))))"
  by (auto simp add: get_products_def db_all_callback_def Let_def)

theorem cache_get_failure_is_500_witness:
  "get_fails (no_faults\<lparr>get_fails := True\<rparr>)
   \<and> get_products (no_faults\<lparr>get_fails := True\<rparr>) 0 one_product =
        \<lparr>response = Responded 500 (Error ''Internal server error''),
         calls = [Redis_get cacheKey], state_after = one_product\<rparr>
   \<and> \<not> get_fails no_faults \<and> redis_get (redis one_product) cacheKey 0 = None
   \<and> \<not> all_fails no_faults \<and> \<not> setEx_fails no_faults
   \<and> response (get_products no_faults 0 one_product) = Responded 200 (Rows [laptop_row])"
proof -
  have h1: "get_fails (no_faults\<lparr>get_fails := True\<rparr>)" by simp
  have h2: "\<not> get_fails no_faults \<and> redis_get (redis one_product) cacheKey 0 = None
    \<and> \<not> all_fails no_faults \<and> \<not> setEx_fails no_faults"
    by (simp add: no_faults_def one_product_def init_def redis_get_def)
  have h3: "db_all (db one_product) = [laptop_row]"
    by (simp add: db_all_def one_product_def)
  show ?thesis
    using h1 h2 h3
      cache_get_failure_is_500[of "no_faults\<lparr>get_fails := True\<rparr>" 0 one_product
        no_faults one_product 0]
    by simp
qed

text \<open>
  C3, as stated, fails: when the insert succeeds and the cache delete is rejected, the row
  stays in the table but no 201 is sent; the callback ends at the rejected \<^verbatim>\<open>await\<close>.
\<close>

theorem cache_delete_failure_counterexample:
  "response (post_product (no_faults\<lparr>del_fails := True\<rparr>)
       \<lparr>body_name = Str ''Laptop Pro'', body_description = Str ''fast''\<rparr> init) = No_response
   \<and> products (db (state_after (post_product (no_faults\<lparr>del_fails := True\<rparr>)
       \<lparr>body_name = Str ''Laptop Pro'', body_description = Str ''fast''\<rparr> init)))
     = [\<lparr>product_id = 1, product_name = ''Laptop Pro'', product_description = Some ''fast''\<rparr>]"
  by (simp add: post_product_def no_faults_def init_def db_run_insert_def next_rowid_def
      largest_rowid_def)

text \<open>
  C3, amended. When the insert of \<^verbatim>\<open>POST /product\<close> succeeds, the table after the request
  is the table with the new row, whatever the cache delete and the publish do: nothing
  rolls the insert back. The answer 201 with the assigned id as \<^verbatim>\<open>productId\<close> is sent when
  the cache delete and the publish both succeed, and only then.
\<close>

theorem insert_never_rolled_back:
  assumes "truthy (body_name b)" and "\<not> run_fails f"
    and "db_run_insert (db s) (sql_param (body_name b)) (sql_param (body_description b)) = Some (d, i)"
  shows "db (state_after (post_product f b s)) = d
    \<and> (\<not> del_fails f \<and> \<not> publish_fails f \<longrightarrow>
         response (post_product f b s) =
           Responded 201 (Created ''Product added successfully and cache invalidated'' i))
    \<and> ((\<exists>m j. response (post_product f b s) = Responded 201 (Created m j)) \<longrightarrow>
         \<not> del_fails f \<and> \<not> publish_fails f)"
  by (simp add: post_product_inserted[OF assms] Let_def)

theorem insert_never_rolled_back_witness:
  "truthy (body_name laptop) \<and> \<not> run_fails (no_faults\<lparr>del_fails := True\<rparr>)
   \<and> db_run_insert (db init) (sql_param (body_name laptop)) (sql_param (body_description laptop))
       = Some (\<lparr>products = [laptop_row], sqlite_sequence = 1\<rparr>, 1)
   \<and> db (state_after (post_product (no_faults\<lparr>del_fails := True\<rparr>) laptop init))
       = \<lparr>products = [laptop_row], sqlite_sequence = 1\<rparr>
   \<and> \<not> run_fails no_faults \<and> \<not> del_fails no_faults \<and> \<not> publish_fails no_faults
   \<and> db (state_after (post_product no_faults laptop init))
       = \<lparr>products = [laptop_row], sqlite_sequence = 1\<rparr>
   \<and> response (post_product no_faults laptop init) =
       Responded 201 (Created ''Product added successfully and cache invalidated'' 1)"
proof -
  have h1: "truthy (body_name laptop)" by (simp add: laptop_def)
  have h2: "\<not> run_fails (no_faults\<lparr>del_fails := True\<rparr>)" by (simp add: no_faults_def)
  have h2': "\<not> run_fails no_faults" by (simp add: no_faults_def)
  have h3: "db_run_insert (db init) (sql_param (body_name laptop)) (sql_param (body_description laptop))
       = Some (\<lparr>products = [laptop_row], sqlite_sequence = 1\<rparr>, 1)"
    by (simp add: laptop_def init_def db_run_insert_def next_rowid_def largest_rowid_def
        laptop_row_def)
  have h4: "\<not> del_fails no_faults \<and> \<not> publish_fails no_faults" by (simp add: no_faults_def)
  show ?thesis
    using h1 h2 h2' h3 h4 insert_never_rolled_back[OF h1 h2 h3]
      insert_never_rolled_back[OF h1 h2' h3]
    by blast
qed

text \<open>
  C4, as stated, fails on the names it gives the event: the message of the scenario is the
  object with the members \<^verbatim>\<open>type\<close> and \<^verbatim>\<open>payload\<close> and the tag \<^verbatim>\<open>NEW_PRODUCT\<close>; read back
  with \<^verbatim>\<open>JSON.parse\<close> it has no member \<^verbatim>\<open>kind\<close> and no member \<^verbatim>\<open>entity\<close>, and its tag is
  not \<^verbatim>\<open>NEW_ENTITY\<close>.
\<close>

theorem names_of_the_event_counterexample:
  \<open>calls (post_product no_faults laptop init) =
     [Db_run (Some ''Laptop Pro'') (Some ''fast''), Redis_del cacheKey,
      Redis_publish ''product_updates''
        ''{"type":"NEW_PRODUCT","payload":{"id":1,"name":"Laptop Pro","description":"fast"}}'']
   \<and> property ''kind''
        ''{"type":"NEW_PRODUCT","payload":{"id":1,"name":"Laptop Pro","description":"fast"}}''
       = None
   \<and> property ''entity''
        ''{"type":"NEW_PRODUCT","payload":{"id":1,"name":"Laptop Pro","description":"fast"}}''
       = None
   \<and> property ''type''
        ''{"type":"NEW_PRODUCT","payload":{"id":1,"name":"Laptop Pro","description":"fast"}}''
       = Some (Scalar (SStr ''NEW_PRODUCT''))
   \<and> property ''type''
        ''{"type":"NEW_PRODUCT","payload":{"id":1,"name":"Laptop Pro","description":"fast"}}''
       \<noteq> Some (Scalar (SStr ''NEW_ENTITY''))\<close>
proof -
  let ?e = "\<lparr>event_type = ''NEW_PRODUCT'', payload_id = 1, payload_name = Str ''Laptop Pro'',
             payload_description = Str ''fast''\<rparr>"
  have lit: \<open>stringify_event ?e =
      ''{"type":"NEW_PRODUCT","payload":{"id":1,"name":"Laptop Pro","description":"fast"}}''\<close>
    by (simp add: event_text showNat_one QuoteJSONString_def escape_char_def dquote_def bslash_def)
  have c: "calls (post_product no_faults laptop init) =
     [Db_run (Some ''Laptop Pro'') (Some ''fast''), Redis_del cacheKey,
      Redis_publish ''product_updates'' (stringify_event ?e)]"
    by (simp add: post_product_def laptop_def init_def no_faults_def db_run_insert_def
        next_rowid_def largest_rowid_def Let_def)
  have p: "JSON_parse_object (stringify_event ?e) =
      Some [(''type'', Scalar (SStr ''NEW_PRODUCT'')),
            (''payload'', Object [(''id'', SNum 1), (''name'', SStr ''Laptop Pro''),
               (''description'', SStr ''fast'')])]"
    by (simp add: event_parse)
  show ?thesis
    using c p unfolding lit by (simp add: property_def)
qed

text \<open>
  C4, amended. When \<^verbatim>\<open>POST /product\<close> answers 201 with the id \<open>i\<close>, it has published exactly
  one message, on the reserved channel \<^verbatim>\<open>product_updates\<close>: the JSON text of a tagged payload
  \<^verbatim>\<open>{type, payload}\<close> whose \<^verbatim>\<open>type\<close> is \<^verbatim>\<open>NEW_PRODUCT\<close> and whose \<^verbatim>\<open>payload\<close> holds \<open>i\<close>,
  the id newly assigned by the table, with the submitted name and description (a
  description that was not submitted is left out). The text is given letter by letter,
  \<^verbatim>\<open>JSON.parse\<close> reads exactly these members back from it, and every connected socket
  receives it as the event \<^verbatim>\<open>product_updated\<close>.
\<close>

theorem published_event_text:
  assumes "response (post_product f b s) = Responded 201 (Created m i)"
  shows \<open>\<exists>message n.
      calls (post_product f b s) =
        [Db_run (Some n) (sql_param (body_description b)), Redis_del cacheKey,
         Redis_publish ''product_updates'' message]
    \<and> body_name b = Str n
    \<and> i = next_rowid (db s)
    \<and> message = ''{"type":"NEW_PRODUCT","payload":{"id":'' @ showNat i @
        '',"name":'' @ QuoteJSONString n @
        (case body_description b of
           Undefined \<Rightarrow> []
         | Null \<Rightarrow> '',"description":null''
         | Str d \<Rightarrow> '',"description":'' @ QuoteJSONString d) @ ''}}''
    \<and> JSON_parse_object message =
        Some [(''type'', Scalar (SStr ''NEW_PRODUCT'')),
              (''payload'', Object ((''id'', SNum i) # (''name'', SStr n) #
                 (case body_description b of
                    Undefined \<Rightarrow> []
                  | Null \<Rightarrow> [(''description'', SNull)]
                  | Str d \<Rightarrow> [(''description'', SStr d)])))]
    \<and> sockets (state_after (post_product f b s)) =
        map (\<lambda>(sid, inbox). (sid, inbox @ [(''product_updated'', message)])) (sockets s)\<close>
proof -
  have t: "truthy (body_name b)"
    using assms by (auto simp add: post_product_def Let_def split: if_splits)
  then obtain n where n: "body_name b = Str n"
    by (cases "body_name b") simp_all
  have nr: "\<not> run_fails f"
    using assms t by (auto simp add: post_product_def Let_def split: if_splits)
  obtain d j where ins:
    "db_run_insert (db s) (sql_param (body_name b)) (sql_param (body_description b)) = Some (d, j)"
    using assms t nr
    by (cases "db_run_insert (db s) (sql_param (body_name b)) (sql_param (body_description b))")
      (auto simp add: post_product_not_inserted)
  have j: "j = next_rowid (db s)"
    using ins by (auto simp add: db_run_insert_def Let_def split: option.splits if_splits)
  have ij: "i = j \<and> \<not> del_fails f \<and> \<not> publish_fails f"
    using assms by (auto simp add: post_product_inserted[OF t nr ins] Let_def split: if_splits)
  let ?text = "stringify_event \<lparr>event_type = ''NEW_PRODUCT'', payload_id = i,
      payload_name = Str n, payload_description = body_description b\<rparr>"
  have c: "calls (post_product f b s) =
        [Db_run (Some n) (sql_param (body_description b)), Redis_del cacheKey,
         Redis_publish ''product_updates'' ?text]"
    using ij by (simp add: post_product_inserted[OF t nr ins] Let_def n)
  have so: "sockets (state_after (post_product f b s)) =
        map (\<lambda>(sid, inbox). (sid, inbox @ [(''product_updated'', ?text)])) (sockets s)"
    using ij by (simp add: post_product_inserted[OF t nr ins] Let_def n redis_publish_def
        subscriptions_def io_emit_def)
  from c n j ij event_text[of i n "body_description b"] event_parse[of "''NEW_PRODUCT''" i n "body_description b"] so
  show ?thesis by blast
qed

theorem published_event_text_witness:
  \<open>response (post_product no_faults laptop (init\<lparr>sockets := [(7, [])]\<rparr>)) =
     Responded 201 (Created ''Product added successfully and cache invalidated'' 1)
   \<and> calls (post_product no_faults laptop (init\<lparr>sockets := [(7, [])]\<rparr>)) =
     [Db_run (Some ''Laptop Pro'') (Some ''fast''), Redis_del cacheKey,
      Redis_publish ''product_updates''
        ''{"type":"NEW_PRODUCT","payload":{"id":1,"name":"Laptop Pro","description":"fast"}}'']
   \<and> JSON_parse_object
        ''{"type":"NEW_PRODUCT","payload":{"id":1,"name":"Laptop Pro","description":"fast"}}'' =
      Some [(''type'', Scalar (SStr ''NEW_PRODUCT'')),
            (''payload'', Object [(''id'', SNum 1), (''name'', SStr ''Laptop Pro''),
               (''description'', SStr ''fast'')])]
   \<and> sockets (state_after (post_product no_faults laptop (init\<lparr>sockets := [(7, [])]\<rparr>))) =
      [(7, [(''product_updated'',
        ''{"type":"NEW_PRODUCT","payload":{"id":1,"name":"Laptop Pro","description":"fast"}}'')])]\<close>
proof -
  let ?s = "init\<lparr>sockets := [(7, [])]\<rparr>"
  have h: "response (post_product no_faults laptop ?s) =
     Responded 201 (Created ''Product added successfully and cache invalidated'' 1)"
    by (simp add: post_product_def laptop_def init_def no_faults_def db_run_insert_def
        next_rowid_def largest_rowid_def Let_def)
  have q: \<open>QuoteJSONString ''Laptop Pro'' = ''"Laptop Pro"''\<close> \<open>QuoteJSONString ''fast'' = ''"fast"''\<close>
    by (simp_all add: QuoteJSONString_def escape_char_def dquote_def bslash_def)
  have b: "body_name laptop = Str ''Laptop Pro''" "body_description laptop = Str ''fast''"
    "sockets ?s = [(7, [])]"
    by (simp_all add: laptop_def)
  from published_event_text[OF h] obtain msg n where
    c: "calls (post_product no_faults laptop ?s) =
        [Db_run (Some n) (sql_param (body_description laptop)), Redis_del cacheKey,
         Redis_publish ''product_updates'' msg]"
    and n: "body_name laptop = Str n"
    and tx: \<open>msg = ''{"type":"NEW_PRODUCT","payload":{"id":'' @ showNat 1 @
        '',"name":'' @ QuoteJSONString n @
        (case body_description laptop of
           Undefined \<Rightarrow> []
         | Null \<Rightarrow> '',"description":null''
         | Str d \<Rightarrow> '',"description":'' @ QuoteJSONString d) @ ''}}''\<close>
    and p: "JSON_parse_object msg =
        Some [(''type'', Scalar (SStr ''NEW_PRODUCT'')),
              (''payload'', Object ((''id'', SNum 1) # (''name'', SStr n) #
                 (case body_description laptop of
                    Undefined \<Rightarrow> []
                  | Null \<Rightarrow> [(''description'', SNull)]
                  | Str d \<Rightarrow> [(''description'', SStr d)])))]"
    and so: "sockets (state_after (post_product no_faults laptop ?s)) =
        map (\<lambda>(sid, inbox). (sid, inbox @ [(''product_updated'', msg)])) (sockets ?s)"
    by blast
  have n': "n = ''Laptop Pro''" using n b(1) by simp
  have tx': \<open>msg =
      ''{"type":"NEW_PRODUCT","payload":{"id":1,"name":"Laptop Pro","description":"fast"}}''\<close>
    using tx by (simp add: n' b(2) showNat_one q)
  show ?thesis
    using h c p so unfolding tx' n' b by simp
qed

text \<open>
  C5, as stated, fails: a message published on a channel other than the two the server
  subscribes to, here \<^verbatim>\<open>alerts\<close>, reaches no connected socket.
\<close>

theorem unsubscribed_topic_counterexample:
  "response (post_publish no_faults (Str ''alerts'') (Str ''hello'') (init\<lparr>sockets := [(1, [])]\<rparr>))
     = Responded 200 (Message ''Message published successfully'')
   \<and> sockets (state_after
       (post_publish no_faults (Str ''alerts'') (Str ''hello'') (init\<lparr>sockets := [(1, [])]\<rparr>)))
     = [(1, [])]"
  by (simp add: post_publish_def no_faults_def init_def redis_publish_def subscriptions_def)

text \<open>
  C5, amended. A message published on one of the two relayed channels,
  \<^verbatim>\<open>product_updates\<close> and \<^verbatim>\<open>custom_channel\<close>, is handed to every connected socket, with no
  filter by socket (as the event \<^verbatim>\<open>product_updated\<close>, respectively \<^verbatim>\<open>custom_channel\<close>); a
  message on any other channel is relayed to no socket. \<^verbatim>\<open>POST /publish\<close> with a channel
  and a message publishes the message on that channel.
\<close>

theorem relay_of_subscribed_topics:
  "redis_publish ''product_updates'' m socks =
      map (\<lambda>(i, inbox). (i, inbox @ [(''product_updated'', m)])) socks
   \<and> redis_publish ''custom_channel'' m socks =
      map (\<lambda>(i, inbox). (i, inbox @ [(''custom_channel'', m)])) socks
   \<and> (channel \<noteq> ''product_updates'' \<and> channel \<noteq> ''custom_channel'' \<longrightarrow>
        redis_publish channel m socks = socks)
   \<and> (truthy c \<and> truthy msg \<and> \<not> publish_fails f \<longrightarrow>
        sockets (state_after (post_publish f c msg s)) =
          redis_publish (str_of c) (str_of msg) (sockets s))"
  by (simp add: redis_publish_def subscriptions_def io_emit_def post_publish_def)

theorem relay_of_subscribed_topics_witness:
  "redis_publish ''product_updates'' ''hello'' [(1, []), (2, [])] =
      [(1, [(''product_updated'', ''hello'')]), (2, [(''product_updated'', ''hello'')])]
   \<and> redis_publish ''custom_channel'' ''hello'' [(1, []), (2, [])] =
      [(1, [(''custom_channel'', ''hello'')]), (2, [(''custom_channel'', ''hello'')])]
   \<and> ''alerts'' \<noteq> ''product_updates'' \<and> ''alerts'' \<noteq> ''custom_channel''
   \<and> redis_publish ''alerts'' ''hello'' [(1, []), (2, [])] = [(1, []), (2, [])]
   \<and> truthy (Str ''custom_channel'') \<and> truthy (Str ''hello'') \<and> \<not> publish_fails no_faults
   \<and> sockets (state_after (post_publish no_faults (Str ''custom_channel'') (Str ''hello'')
        (init\<lparr>sockets := [(1, []), (2, [])]\<rparr>))) =
      [(1, [(''custom_channel'', ''hello'')]), (2, [(''custom_channel'', ''hello'')])]"
proof -
  have h: "''alerts'' \<noteq> ''product_updates'' \<and> ''alerts'' \<noteq> ''custom_channel''" by simp
  have h2: "truthy (Str ''custom_channel'') \<and> truthy (Str ''hello'') \<and> \<not> publish_fails no_faults"
    by (simp add: no_faults_def)
  show ?thesis
    using h h2
      relay_of_subscribed_topics[of "''hello''" "[(1, []), (2, [])]" "''alerts''"
        "Str ''custom_channel''" "Str ''hello''" no_faults "init\<lparr>sockets := [(1, []), (2, [])]\<rparr>"]
    by simp
qed

text \<open>
  C6. When \<^verbatim>\<open>GET /products\<close> misses the cache and the scan of the table fails, the answer
  is 500, the only calls are the cache get and the scan (no cache set), and the state,
  the cache with it, is unchanged.
\<close>

theorem scan_failure_leaves_cache:
  assumes "\<not> get_fails f"
    and "redis_get (redis s) cacheKey now = None \<or> redis_get (redis s) cacheKey now = Some []"
    and "all_fails f"
  shows "get_products f now s =
    \<lparr>response = Responded 500 (Error ''Failed to fetch products from database''),
     calls = [Redis_get cacheKey, Db_all], state_after = s\<rparr>"
  using assms by (simp add: get_products_miss db_all_callback_def)

theorem scan_failure_leaves_cache_witness:
  "\<not> get_fails (no_faults\<lparr>all_fails := True\<rparr>)
   \<and> redis_get (redis one_product) cacheKey 0 = None
   \<and> all_fails (no_faults\<lparr>all_fails := True\<rparr>)
   \<and> get_products (no_faults\<lparr>all_fails := True\<rparr>) 0 one_product =
      \<lparr>response = Responded 500 (Error ''Failed to fetch products from database''),
       calls = [Redis_get cacheKey, Db_all], state_after = one_product\<rparr>"
proof -
  have h1: "\<not> get_fails (no_faults\<lparr>all_fails := True\<rparr>)" by (simp add: no_faults_def)
  have h2: "redis_get (redis one_product) cacheKey 0 = None"
    by (simp add: one_product_def init_def redis_get_def)
  have h2': "redis_get (redis one_product) cacheKey 0 = None
    \<or> redis_get (redis one_product) cacheKey 0 = Some []"
    using h2 by simp
  have h3: "all_fails (no_faults\<lparr>all_fails := True\<rparr>)" by simp
  show ?thesis
    using h1 h2 h3 scan_failure_leaves_cache[OF h1 h2' h3] by simp
qed

text \<open>
  C7. \<^verbatim>\<open>POST /product\<close> with a missing name (or any name that JavaScript takes as false)
  answers 400 and calls neither the table, nor the cache, nor the bus; the state is
  unchanged.
\<close>

theorem missing_name_rejected:
  assumes "\<not> truthy (body_name b)"
  shows "post_product f b s =
    \<lparr>response = Responded 400 (Error ''Product name is required''), calls = [], state_after = s\<rparr>"
  using assms by (simp add: post_product_def Let_def)

theorem missing_name_rejected_witness:
  "\<not> truthy (body_name \<lparr>body_name = Undefined, body_description = Str ''fast''\<rparr>)
   \<and> post_product no_faults \<lparr>body_name = Undefined, body_description = Str ''fast''\<rparr> one_product =
      \<lparr>response = Responded 400 (Error ''Product name is required''), calls = [],
       state_after = one_product\<rparr>"
proof -
  have h: "\<not> truthy (body_name \<lparr>body_name = Undefined, body_description = Str ''fast''\<rparr>)"
    by simp
  show ?thesis
    using h missing_name_rejected[OF h, of no_faults one_product] by simp
qed

text \<open>
  C8. Every cache set a request makes is on the key \<^verbatim>\<open>all_products\<close> with a time to live
  of 3600 seconds, and a populating read stores its entry with the expiry \<open>now + 3600\<close>.
  An entry set at \<open>t0\<close> with the time to live \<open>T\<close> is absent for every get at a time
  later than \<open>t0 + T\<close>, with no write or delete in between.
\<close>

theorem ttl_is_3600_and_expires:
  "(Redis_setEx k ttl v \<in> set (calls (handle f now rq s)) \<longrightarrow> k = cacheKey \<and> ttl = 3600)
   \<and> (\<not> get_fails f \<and> redis_get (redis s) cacheKey now = None \<and> \<not> all_fails f \<and> \<not> setEx_fails f
        \<longrightarrow> calls (get_products f now s) =
              [Redis_get cacheKey, Db_all,
               Redis_setEx cacheKey 3600 (JSON_stringify (db_all (db s)))]
          \<and> map_of (redis (state_after (get_products f now s))) cacheKey =
              Some (JSON_stringify (db_all (db s)), now + 3600))
   \<and> (t0 + T < t \<longrightarrow> redis_get (redis_setEx r key T val t0) key t = None)"
proof -
  have a: "Redis_setEx k ttl v \<in> set (calls (handle f now rq s)) \<longrightarrow> k = cacheKey \<and> ttl = 3600"
    by (cases rq)
      (auto simp add: post_product_setEx_calls post_publish_setEx_calls
        dest: get_products_setEx_calls)
  have b: "\<not> get_fails f \<and> redis_get (redis s) cacheKey now = None \<and> \<not> all_fails f \<and> \<not> setEx_fails f
        \<longrightarrow> calls (get_products f now s) =
              [Redis_get cacheKey, Db_all,
               Redis_setEx cacheKey 3600 (JSON_stringify (db_all (db s)))]
          \<and> map_of (redis (state_after (get_products f now s))) cacheKey =
              Some (JSON_stringify (db_all (db s)), now + 3600)"
    by (simp add: get_products_def db_all_callback_def Let_def redis_setEx_def update_conv')
  have c: "t0 + T < t \<longrightarrow> redis_get (redis_setEx r key T val t0) key t = None"
    by (simp add: redis_get_setEx)
  from a b c show ?thesis by blast
qed

theorem ttl_is_3600_and_expires_witness:
  "Redis_setEx cacheKey 3600 (JSON_stringify [laptop_row])
      \<in> set (calls (handle no_faults 0 GET_products one_product))
   \<and> \<not> get_fails no_faults \<and> redis_get (redis one_product) cacheKey 0 = None
   \<and> \<not> all_fails no_faults \<and> \<not> setEx_fails no_faults
   \<and> calls (get_products no_faults 0 one_product) =
       [Redis_get cacheKey, Db_all, Redis_setEx cacheKey 3600 (JSON_stringify [laptop_row])]
   \<and> map_of (redis (state_after (get_products no_faults 0 one_product))) cacheKey =
       Some (JSON_stringify [laptop_row], 3600)
   \<and> (0::nat) + 3600 < 3601
   \<and> redis_get (redis_setEx [] cacheKey 3600 (JSON_stringify [laptop_row]) 0) cacheKey 3601 = None"
proof -
  have h1: "Redis_setEx cacheKey 3600 (JSON_stringify [laptop_row])
      \<in> set (calls (handle no_faults 0 GET_products one_product))"
    by (simp add: get_products_def db_all_callback_def no_faults_def one_product_def init_def
        redis_get_def db_all_def Let_def)
  have h2: "\<not> get_fails no_faults \<and> redis_get (redis one_product) cacheKey 0 = None
    \<and> \<not> all_fails no_faults \<and> \<not> setEx_fails no_faults"
    by (simp add: no_faults_def one_product_def init_def redis_get_def)
  have h3: "db_all (db one_product) = [laptop_row]"
    by (simp add: db_all_def one_product_def)
  show ?thesis
    using h1 h2 h3
      ttl_is_3600_and_expires[of cacheKey 3600 "JSON_stringify [laptop_row]" no_faults 0
        GET_products one_product 0 3600 3601 "[]" cacheKey "JSON_stringify [laptop_row]"]
    by simp
qed

text \<open>
  C9. An insert assigns an id larger than every id the table holds or ever assigned. Along
  any sequence of requests the ids returned as \<^verbatim>\<open>productId\<close> are strictly increasing and
  larger than every id of the table the sequence started from. The first insert into a
  new table is answered with \<^verbatim>\<open>productId\<close> 1.
\<close>

theorem ids_strictly_increase:
  "(db_run_insert d n desc = Some (d', i) \<longrightarrow>
      sqlite_sequence d < i \<and> (\<forall>p \<in> set (products d). product_id p < i)
      \<and> sqlite_sequence d' = i
      \<and> map product_id (products d') = map product_id (products d) @ [i])
   \<and> sorted_wrt (<) (productIds (run reqs s))
   \<and> (\<forall>j \<in> set (productIds (run reqs s)).
        sqlite_sequence (db s) < j \<and> (\<forall>p \<in> set (products (db s)). product_id p < j))
   \<and> (truthy (body_name b) \<and> \<not> run_fails f \<and> \<not> del_fails f \<and> \<not> publish_fails f
        \<and> db s0 = \<lparr>products = [], sqlite_sequence = 0\<rparr> \<longrightarrow>
        response (post_product f b s0) =
          Responded 201 (Created ''Product added successfully and cache invalidated'' 1))"
proof -
  have a: "db_run_insert d n desc = Some (d', i) \<longrightarrow>
      sqlite_sequence d < i \<and> (\<forall>p \<in> set (products d). product_id p < i)
      \<and> sqlite_sequence d' = i
      \<and> map product_id (products d') = map product_id (products d) @ [i]"
  proof
    assume ins: "db_run_insert d n desc = Some (d', i)"
    have i: "i = Suc (largest_rowid d)" by (rule db_run_insert_Some(1)[OF ins])
    have "sqlite_sequence d < i"
      using largest_rowid_bounds(1)[of d] i by simp
    moreover have "\<forall>p \<in> set (products d). product_id p < i"
      using largest_rowid_bounds(2)[of _ d] i by fastforce
    moreover have "sqlite_sequence d' = i" by (rule db_run_insert_Some(2)[OF ins])
    moreover have "map product_id (products d') = map product_id (products d) @ [i]"
      using db_run_insert_Some(3)[OF ins] by auto
    ultimately show "sqlite_sequence d < i \<and> (\<forall>p \<in> set (products d). product_id p < i)
      \<and> sqlite_sequence d' = i
      \<and> map product_id (products d') = map product_id (products d) @ [i]"
      by blast
  qed
  have b: "sorted_wrt (<) (productIds (run reqs s))"
    using productIds_run by blast
  have c: "\<forall>j \<in> set (productIds (run reqs s)).
        sqlite_sequence (db s) < j \<and> (\<forall>p \<in> set (products (db s)). product_id p < j)"
  proof
    fix j assume "j \<in> set (productIds (run reqs s))"
    then have "largest_rowid (db s) < j" using productIds_run by blast
    then show "sqlite_sequence (db s) < j \<and> (\<forall>p \<in> set (products (db s)). product_id p < j)"
      using largest_rowid_bounds(1)[of "db s"] largest_rowid_bounds(2)[of _ "db s"]
      by (meson le_less_trans)
  qed
  have e: "truthy (body_name b) \<and> \<not> run_fails f \<and> \<not> del_fails f \<and> \<not> publish_fails f
        \<and> db s0 = \<lparr>products = [], sqlite_sequence = 0\<rparr> \<longrightarrow>
        response (post_product f b s0) =
          Responded 201 (Created ''Product added successfully and cache invalidated'' 1)"
  proof (cases "body_name b")
    case (Str x)
    then show ?thesis
      by (simp add: post_product_def Let_def db_run_insert_def next_rowid_def largest_rowid_def)
  qed simp_all
  from a b c e show ?thesis by blast
qed

theorem ids_strictly_increase_witness:
  "db_run_insert \<lparr>products = [laptop_row], sqlite_sequence = 1\<rparr> (Some ''Mouse'') None =
      Some (\<lparr>products = [laptop_row,
               \<lparr>product_id = 2, product_name = ''Mouse'', product_description = None\<rparr>],
             sqlite_sequence = 2\<rparr>, 2)
   \<and> productIds (run [(no_faults, 0, POST_product laptop), (no_faults, 1, GET_products),
                      (no_faults, 2, POST_product laptop)] one_product) = [2, 3]
   \<and> sorted_wrt (<) [2, 3::nat]
   \<and> sqlite_sequence (db one_product) < 2 \<and> product_id laptop_row < 2
   \<and> sqlite_sequence (db one_product) < 3 \<and> product_id laptop_row < 3
   \<and> truthy (body_name laptop) \<and> \<not> run_fails no_faults \<and> \<not> del_fails no_faults
   \<and> \<not> publish_fails no_faults \<and> db init = \<lparr>products = [], sqlite_sequence = 0\<rparr>
   \<and> response (post_product no_faults laptop init) =
       Responded 201 (Created ''Product added successfully and cache invalidated'' 1)"
proof -
  let ?reqs = "[(no_faults, 0, POST_product laptop), (no_faults, 1, GET_products),
                (no_faults, 2, POST_product laptop)]"
  let ?d' = "\<lparr>products = [laptop_row,
               \<lparr>product_id = 2, product_name = ''Mouse'', product_description = None\<rparr>],
             sqlite_sequence = 2\<rparr>"
  have h1: "db_run_insert \<lparr>products = [laptop_row], sqlite_sequence = 1\<rparr> (Some ''Mouse'') None =
      Some (?d', 2)"
    by (simp add: db_run_insert_def next_rowid_def largest_rowid_def laptop_row_def)
  have h2: "productIds (run ?reqs one_product) = [2, 3]"
    by (simp add: post_product_def get_products_def db_all_callback_def laptop_def
        one_product_def init_def no_faults_def db_run_insert_def next_rowid_def
        largest_rowid_def laptop_row_def Let_def redis_del_def redis_get_def cacheKey_def
        db_all_def)
  have h3: "truthy (body_name laptop) \<and> \<not> run_fails no_faults \<and> \<not> del_fails no_faults
     \<and> \<not> publish_fails no_faults \<and> db init = \<lparr>products = [], sqlite_sequence = 0\<rparr>"
    by (simp add: laptop_def no_faults_def init_def)
  note c = ids_strictly_increase[of "\<lparr>products = [laptop_row], sqlite_sequence = 1\<rparr>"
      "Some ''Mouse''" None ?d' 2 ?reqs one_product laptop no_faults init]
  have pr: "products (db one_product) = [laptop_row]"
    by (simp add: one_product_def)
  from c have b: "\<forall>j \<in> set [2, 3::nat].
      sqlite_sequence (db one_product) < j
      \<and> (\<forall>p \<in> set (products (db one_product)). product_id p < j)"
    unfolding h2 by blast
  have e: "sqlite_sequence (db one_product) < 2 \<and> product_id laptop_row < 2
    \<and> sqlite_sequence (db one_product) < 3 \<and> product_id laptop_row < 3"
    using b by (simp add: pr)
  show ?thesis
    using h1 h3 c e unfolding h2 by blast
qed

text \<open>
  C10. A \<^verbatim>\<open>GET /products\<close> that hits the cache calls the cache get and nothing else: the
  table is not read (the answer is the same whatever the table holds), and the state after
  the request is the state before it, so that the cached value and its expiry are as they
  were.
\<close>

theorem hit_reads_only_cache:
  assumes "\<not> get_fails f" and "redis_get (redis s) cacheKey now = Some v" and "v \<noteq> []"
    and "JSON_parse v = Some rows"
  shows "get_products f now s =
      \<lparr>response = Responded 200 (Rows rows), calls = [Redis_get cacheKey], state_after = s\<rparr>
    \<and> response (get_products f now (s\<lparr>db := d\<rparr>)) = Responded 200 (Rows rows)"
proof -
  have "redis_get (redis (s\<lparr>db := d\<rparr>)) cacheKey now = Some v"
    using assms(2) by simp
  from get_products_hit[OF assms(1) this assms(3)] get_products_hit[OF assms(1,2,3)] assms(4)
  show ?thesis by simp
qed

theorem hit_reads_only_cache_witness:
  "\<not> get_fails no_faults
   \<and> redis_get (redis (init\<lparr>redis := [(cacheKey, JSON_stringify [laptop_row], 3600)]\<rparr>)) cacheKey 3600
       = Some (JSON_stringify [laptop_row])
   \<and> JSON_stringify [laptop_row] \<noteq> []
   \<and> JSON_parse (JSON_stringify [laptop_row]) = Some [laptop_row]
   \<and> get_products no_faults 3600 (init\<lparr>redis := [(cacheKey, JSON_stringify [laptop_row], 3600)]\<rparr>) =
      \<lparr>response = Responded 200 (Rows [laptop_row]), calls = [Redis_get cacheKey],
       state_after = init\<lparr>redis := [(cacheKey, JSON_stringify [laptop_row], 3600)]\<rparr>\<rparr>
   \<and> response (get_products no_faults 3600
        (init\<lparr>redis := [(cacheKey, JSON_stringify [laptop_row], 3600)],
              db := \<lparr>products = [], sqlite_sequence = 0\<rparr>\<rparr>))
       = Responded 200 (Rows [laptop_row])"
proof -
  let ?s = "init\<lparr>redis := [(cacheKey, JSON_stringify [laptop_row], 3600)]\<rparr>"
  have h1: "\<not> get_fails no_faults" by (simp add: no_faults_def)
  have h2: "redis_get (redis ?s) cacheKey 3600 = Some (JSON_stringify [laptop_row])"
    by (simp add: redis_get_def)
  have h3: "JSON_stringify [laptop_row] \<noteq> []" by (rule JSON_stringify_not_Nil)
  have h4: "JSON_parse (JSON_stringify [laptop_row]) = Some [laptop_row]" by (rule JSON_roundtrip)
  show ?thesis
    using h1 h2 h3 h4
      hit_reads_only_cache[OF h1 h2 h3 h4, of "\<lparr>products = [], sqlite_sequence = 0\<rparr>"]
    by simp
qed

end
